theory Spec2Isabelle
  imports Complex_Main "HOL-Library.Sublist"
begin

section \<open>Configuration constants of background.js\<close>

definition TARGET_URLS :: "string list" where
  "TARGET_URLS =
     [''https://www.competitiondatabase.co.uk'',
      ''https://www.facebook.com'',
      ''https://www.google.com'',
      ''https://www.yahoo.com'']"

definition SCREENSHOT_INTERVAL :: nat where
  "SCREENSHOT_INTERVAL = 60000"

definition PAGE_LOAD_TIMEOUT :: nat where
  "PAGE_LOAD_TIMEOUT = 15000"

section \<open>getRandomUrl\<close>

text \<open>
  \<^verbatim>\<open>const randomIndex = Math.floor(Math.random() * TARGET_URLS.length);
  return TARGET_URLS[randomIndex];\<close>

  The value of \<^verbatim>\<open>Math.random()\<close> is the parameter \<open>r\<close>. It is a double in \<open>[0, 1)\<close>; the
  product with the list length 4 is a scaling by a power of two, which doubles compute
  exactly, so the real product is the value the code floors. An index outside the list
  reads \<^verbatim>\<open>undefined\<close> in JavaScript: that is \<open>None\<close> here.
\<close>

definition randomIndex :: "real \<Rightarrow> int" where
  "randomIndex r = \<lfloor>r * real (length TARGET_URLS)\<rfloor>"

definition getRandomUrl :: "real \<Rightarrow> string option" where
  "getRandomUrl r =
     (let i = randomIndex r
      in if 0 \<le> i \<and> i < int (length TARGET_URLS) then Some (TARGET_URLS ! nat i) else None)"

section \<open>Strings: the JavaScript string methods that saveScreenshot uses\<close>

text \<open>
  \<^verbatim>\<open>s.replace(pat, rep)\<close> with a string pattern replaces the first occurrence of \<open>pat\<close>
  in \<open>s\<close>, wherever it is, and nothing else. (The replacement used by the code is the
  empty string, so the \<^verbatim>\<open>$\<close> patterns of a replacement string play no role.)
\<close>

fun js_replace :: "string \<Rightarrow> string \<Rightarrow> string \<Rightarrow> string" where
  "js_replace pat rep [] = (if pat = [] then rep else [])"
| "js_replace pat rep (c # cs) =
     (if prefix pat (c # cs) then rep @ drop (length pat) (c # cs)
      else c # js_replace pat rep cs)"

text \<open>\<^verbatim>\<open>s.replace(/[:.]/g, '-')\<close>: every colon and every period becomes a hyphen.\<close>

definition replace_colon_period :: "string \<Rightarrow> string" where
  "replace_colon_period s = map (\<lambda>c. if c = CHR '':'' \<or> c = CHR ''.'' then CHR ''-'' else c) s"

text \<open>
  \<^verbatim>\<open>s.slice(0, -5)\<close>: all but the last five characters; the empty string when \<open>s\<close> has
  fewer than five (the end index \<open>length s - 5\<close> is clamped at 0, as the truncating
  subtraction of \<open>nat\<close> does).
\<close>

definition slice_0_minus5 :: "string \<Rightarrow> string" where
  "slice_0_minus5 s = take (length s - 5) s"

section \<open>The hostname of a URL\<close>

datatype js_error = Error string

text \<open>
  \<^verbatim>\<open>new URL(sourceUrl).hostname\<close> is computed by the platform's URL parser, which is not
  code of the extension. It is a parameter here: a function \<open>hostname_of\<close> from the
  string given to the \<^verbatim>\<open>URL\<close> constructor to the hostname, or to the TypeError that the
  constructor throws. An undefined argument is converted to the string \<^verbatim>\<open>undefined\<close>, in
  the constructor as in a template literal.
\<close>

definition url_string :: "string option \<Rightarrow> string" where
  "url_string u = (case u of Some x \<Rightarrow> x | None \<Rightarrow> ''undefined'')"

section \<open>The filename of saveScreenshot\<close>

text \<open>
  \<^verbatim>\<open>const urlDomain = new URL(sourceUrl).hostname.replace('www.', '');
  const timestamp = new Date().toISOString().replace(/[:.]/g, '-').slice(0, -5);
  const filename = `screenshot_${urlDomain}_${timestamp}.png`;\<close>

  The string that \<^verbatim>\<open>new Date().toISOString()\<close> returns at the time of the call is the
  parameter \<open>isoTime\<close>.
\<close>

definition urlDomain :: "string \<Rightarrow> string" where
  "urlDomain hostname = js_replace ''www.'' '''' hostname"

definition timestamp_of :: "string \<Rightarrow> string" where
  "timestamp_of isoTime = slice_0_minus5 (replace_colon_period isoTime)"

definition filename_of :: "string \<Rightarrow> string \<Rightarrow> string" where
  "filename_of hostname isoTime =
     ''screenshot_'' @ urlDomain hostname @ ''_'' @ timestamp_of isoTime @ ''.png''"

definition saveScreenshot_filename ::
  "(string \<Rightarrow> js_error + string) \<Rightarrow> string \<Rightarrow> string \<Rightarrow> js_error + string" where
  "saveScreenshot_filename hostname_of sourceUrl isoTime =
     (case hostname_of sourceUrl of
        Inl e \<Rightarrow> Inl e
      | Inr hostname \<Rightarrow> Inr (filename_of hostname isoTime))"

text \<open>
  The specification's reading of the host part, for comparison with \<open>urlDomain\<close>: the
  hostname with a leading \<^verbatim>\<open>www.\<close> stripped, and unchanged otherwise.
\<close>

definition spec_strip_leading_www :: "string \<Rightarrow> string" where
  "spec_strip_leading_www hostname =
     (if prefix ''www.'' hostname then drop 4 hostname else hostname)"

definition spec_filename_of :: "string \<Rightarrow> string \<Rightarrow> string" where
  "spec_filename_of hostname isoTime =
     ''screenshot_'' @ spec_strip_leading_www hostname @ ''_'' @ timestamp_of isoTime @ ''.png''"

section \<open>waitForPageLoad: the race between the listener and the timeout\<close>

datatype tab_status = Unloaded | Loading | Complete

datatype promise_state = Pending | Resolved | Rejected

datatype log_entry = Log string | LogError string js_error

text \<open>The platform calls that the function makes, recorded in the order it makes them.\<close>

datatype api_call =
    SetTimeout nat
  | AddListener
  | TabsGet nat
  | ClearTimeout nat
  | RemoveListener

text \<open>
  The state of one call of \<^verbatim>\<open>waitForPageLoad(tabId)\<close>: the two local variables of the
  executor (\<open>timeoutId\<close>, \<open>loadingListener\<close>), the promise, and what the runtime holds
  for this call: the pending timeout (its handle and its deadline), whether the listener
  is registered on \<^verbatim>\<open>chrome.tabs.onUpdated\<close>, and whether the promise of
  \<^verbatim>\<open>chrome.tabs.get\<close> is still to be settled. \<open>clock\<close> counts the milliseconds since the
  call. \<open>listener_runs\<close> and \<open>timeout_runs\<close> count the times the runtime has invoked the
  listener and the timeout callback.
\<close>

record wait_state =
  tabId :: nat
  timeoutId :: "nat option"
  loadingListener :: bool
  promise :: promise_state
  resolved_at :: "nat option"
  timer :: "(nat \<times> nat) option"
  listener_registered :: bool
  get_pending :: bool
  clock :: nat
  listener_runs :: nat
  timeout_runs :: nat
  calls :: "api_call list"
  wait_console :: "log_entry list"

definition call :: "api_call \<Rightarrow> wait_state \<Rightarrow> wait_state" where
  "call c w = w\<lparr>calls := calls w @ [c]\<rparr>"

definition wait_log :: "log_entry \<Rightarrow> wait_state \<Rightarrow> wait_state" where
  "wait_log l w = w\<lparr>wait_console := wait_console w @ [l]\<rparr>"

text \<open>\<^verbatim>\<open>clearTimeout(id)\<close> cancels the timeout with that handle, if it is still pending.\<close>

definition clearTimeout :: "nat \<Rightarrow> wait_state \<Rightarrow> wait_state" where
  "clearTimeout i w =
     call (ClearTimeout i)
       (case timer w of
          Some (j, d) \<Rightarrow> if j = i then w\<lparr>timer := None\<rparr> else w
        | None \<Rightarrow> w)"

definition removeListener :: "wait_state \<Rightarrow> wait_state" where
  "removeListener w = call RemoveListener (w\<lparr>listener_registered := False\<rparr>)"

text \<open>
  \<^verbatim>\<open>if (timeoutId) clearTimeout(timeoutId);
  if (loadingListener) chrome.tabs.onUpdated.removeListener(loadingListener);\<close>

  A handle is truthy when it is defined and not 0.
\<close>

definition cleanup :: "wait_state \<Rightarrow> wait_state" where
  "cleanup w =
     (let w1 = (case timeoutId w of
                  Some i \<Rightarrow> if i \<noteq> 0 then clearTimeout i w else w
                | None \<Rightarrow> w)
      in if loadingListener w1 then removeListener w1 else w1)"

text \<open>\<^verbatim>\<open>resolve()\<close>: a promise settles once; a later call changes nothing.\<close>

definition resolve :: "wait_state \<Rightarrow> wait_state" where
  "resolve w =
     (if promise w = Pending then w\<lparr>promise := Resolved, resolved_at := Some (clock w)\<rparr> else w)"

text \<open>The callback given to \<^verbatim>\<open>setTimeout\<close>.\<close>

definition timeout_callback :: "wait_state \<Rightarrow> wait_state" where
  "timeout_callback w =
     resolve (wait_log (Log ''Page load timeout reached, proceeding with screenshot'') (cleanup w))"

text \<open>
  \<^verbatim>\<open>loadingListener = (updatedTabId, changeInfo, tab) => { ... }\<close>; the second argument
  is \<^verbatim>\<open>changeInfo.status\<close>, \<open>None\<close> when the change is not one of the status.
\<close>

definition loadingListener_callback :: "nat \<Rightarrow> tab_status option \<Rightarrow> wait_state \<Rightarrow> wait_state" where
  "loadingListener_callback updatedTabId status w =
     (if updatedTabId = tabId w \<and> status = Some Complete
      then resolve (wait_log (Log ''Page loaded successfully'') (cleanup w))
      else w)"

text \<open>The two callbacks on the promise of \<^verbatim>\<open>chrome.tabs.get(tabId)\<close>.\<close>

definition get_then :: "tab_status \<Rightarrow> wait_state \<Rightarrow> wait_state" where
  "get_then status w = (if status = Complete then resolve (cleanup w) else w)"

definition get_catch :: "js_error \<Rightarrow> wait_state \<Rightarrow> wait_state" where
  "get_catch e w = resolve (cleanup (wait_log (LogError ''Error checking tab status:'' e) w))"

text \<open>
  The executor of the promise, which runs at the call and to its end before any callback:
  it sets the timeout, registers the listener and then asks for the tab. \<open>Suc k\<close> is the
  handle that \<^verbatim>\<open>setTimeout\<close> returns (the runtime's handles are positive integers).
\<close>

definition waitForPageLoad_start :: "nat \<Rightarrow> nat \<Rightarrow> wait_state" where
  "waitForPageLoad_start tid k =
     (let w0 = \<lparr>tabId = tid, timeoutId = None, loadingListener = False, promise = Pending,
                resolved_at = None, timer = None, listener_registered = False,
                get_pending = False, clock = 0, listener_runs = 0, timeout_runs = 0,
                calls = [], wait_console = []\<rparr>;
          w1 = call (SetTimeout PAGE_LOAD_TIMEOUT)
                 (w0\<lparr>timeoutId := Some (Suc k),
                     timer := Some (Suc k, clock w0 + PAGE_LOAD_TIMEOUT)\<rparr>);
          w2 = w1\<lparr>loadingListener := True\<rparr>;
          w3 = call AddListener (w2\<lparr>listener_registered := True\<rparr>)
      in call (TabsGet tid) (w3\<lparr>get_pending := True\<rparr>))"

text \<open>
  What the runtime does afterwards. Time passes to \<open>t\<close>: a pending timeout whose deadline
  is reached fires, once, at its deadline (the time the runtime takes to run a callback
  that is due is not counted).
\<close>

definition advance :: "nat \<Rightarrow> wait_state \<Rightarrow> wait_state" where
  "advance t w =
     (case timer w of
        Some (i, d) \<Rightarrow>
          if d \<le> t
          then (timeout_callback
                  (w\<lparr>clock := max (clock w) d, timer := None,
                     timeout_runs := Suc (timeout_runs w)\<rparr>))\<lparr>clock := max (clock w) t\<rparr>
          else w\<lparr>clock := max (clock w) t\<rparr>
      | None \<Rightarrow> w\<lparr>clock := max (clock w) t\<rparr>)"

text \<open>
  An external event reaches the call only through what is registered: a tab update is
  given to the listener while it is registered, the answer to \<^verbatim>\<open>chrome.tabs.get\<close> is given
  once to \<open>then\<close> or to \<open>catch\<close>. \<open>Idle\<close> is no event at all (time passes only).
\<close>

datatype wait_event =
    TabUpdated nat "tab_status option"
  | TabsGetResolved tab_status
  | TabsGetRejected js_error
  | Idle

fun deliver :: "wait_event \<Rightarrow> wait_state \<Rightarrow> wait_state" where
  "deliver (TabUpdated tid status) w =
     (if listener_registered w
      then loadingListener_callback tid status (w\<lparr>listener_runs := Suc (listener_runs w)\<rparr>)
      else w)"
| "deliver (TabsGetResolved status) w =
     (if get_pending w then get_then status (w\<lparr>get_pending := False\<rparr>) else w)"
| "deliver (TabsGetRejected e) w =
     (if get_pending w then get_catch e (w\<lparr>get_pending := False\<rparr>) else w)"
| "deliver Idle w = w"

text \<open>A schedule is a list of events, each with the time that passes before it.\<close>

fun run :: "wait_state \<Rightarrow> (nat \<times> wait_event) list \<Rightarrow> wait_state" where
  "run w [] = w"
| "run w ((gap, e) # es) = run (deliver e (advance (clock w + gap) w)) es"

text \<open>
  The call as the awaiting cycle sees it: the events of the schedule, and then nothing
  but time until the bound has passed.
\<close>

definition waitForPageLoad :: "nat \<Rightarrow> nat \<Rightarrow> (nat \<times> wait_event) list \<Rightarrow> wait_state" where
  "waitForPageLoad tid k evs =
     (let w = run (waitForPageLoad_start tid k) evs
      in advance (max (clock w) PAGE_LOAD_TIMEOUT) w)"

text \<open>In a trace of calls, \<open>b\<close> is made after the first \<open>a\<close>.\<close>

fun called_before :: "api_call \<Rightarrow> api_call \<Rightarrow> api_call list \<Rightarrow> bool" where
  "called_before a b [] = False"
| "called_before a b (c # cs) = (if c = a then b \<in> set cs else called_before a b cs)"

section \<open>The service worker: its globals, the storage and the runtime's intervals\<close>

text \<open>
  \<^verbatim>\<open>chrome.storage.local\<close> holds three keys, each present or absent. The count is a
  JavaScript number; it starts at 0 and grows by one a minute at most, far below
  \<open>2^53\<close>, where the addition of 1 is exact, so it is a \<open>nat\<close> here.
\<close>

record storage =
  st_isRunning :: "bool option"
  st_lastRun :: "string option"
  st_totalScreenshots :: "nat option"

text \<open>
  The three globals of the script (\<open>isRunning\<close>, \<open>intervalId\<close>, \<open>currentTabId\<close>), the
  storage, the console, the downloads offered, and the runtime's side of the timers:
  the active intervals (handle and period) and the last handle given out.
\<close>

record sw_state =
  isRunning :: bool
  intervalId :: "nat option"
  currentTabId :: "nat option"
  store :: storage
  intervals :: "(nat \<times> nat) list"
  last_handle :: nat
  console :: "log_entry list"
  downloads :: "string list"

definition initial_state :: sw_state where
  "initial_state =
     \<lparr>isRunning = False, intervalId = None, currentTabId = None,
      store = \<lparr>st_isRunning = None, st_lastRun = None, st_totalScreenshots = None\<rparr>,
      intervals = [], last_handle = 0, console = [], downloads = []\<rparr>"

definition console_log :: "log_entry \<Rightarrow> sw_state \<Rightarrow> sw_state" where
  "console_log l s = s\<lparr>console := console s @ [l]\<rparr>"

text \<open>How a function ends: it returns, it throws, or its promise never settles.\<close>

datatype 'a completion = Normal 'a | Throw js_error | Never

text \<open>
  What the platform answers during one cycle: the value of \<^verbatim>\<open>Math.random()\<close>, the
  outcome of every \<^verbatim>\<open>chrome.*\<close> call and of \<^verbatim>\<open>fetch\<close> (an error is the rejection of the
  call's promise), the events during the load wait, the URL parser, and the two readings
  of the clock.
\<close>

record cycle_env =
  random :: real
  tabs_query :: "js_error + nat option"
  tabs_update_url :: "js_error option"
  tabs_create :: "js_error + nat"
  tabs_create_fallback :: "js_error + nat"
  load_events :: "(nat \<times> wait_event) list"
  tabs_update_active :: "js_error option"
  captureVisibleTab :: "js_error + string"
  URL_hostname :: "string \<Rightarrow> js_error + string"
  fetch_blob :: "js_error option"
  downloads_download :: "js_error option"
  save_time :: string
  storage_get :: "js_error option"
  storage_set :: "js_error option"
  stats_time :: string

subsection \<open>createOrUpdateTab\<close>

text \<open>
  The \<^verbatim>\<open>try\<close> block: the active tab is navigated and returned, or a new tab is created
  when there is none. Every rejected call in it, the \<^verbatim>\<open>return await\<close> of the creation
  too, ends in the \<^verbatim>\<open>catch\<close>, which logs and creates a tab.
\<close>

definition createOrUpdateTab_try :: "cycle_env \<Rightarrow> js_error + nat" where
  "createOrUpdateTab_try env =
     (case tabs_query env of
        Inl e \<Rightarrow> Inl e
      | Inr (Some activeTab) \<Rightarrow>
          (case tabs_update_url env of Some e \<Rightarrow> Inl e | None \<Rightarrow> Inr activeTab)
      | Inr None \<Rightarrow> tabs_create env)"

definition createOrUpdateTab :: "cycle_env \<Rightarrow> sw_state \<Rightarrow> nat completion \<times> sw_state" where
  "createOrUpdateTab env s =
     (case createOrUpdateTab_try env of
        Inr tab \<Rightarrow> (Normal tab, s)
      | Inl e \<Rightarrow>
          (let s1 = console_log (LogError ''Error creating/updating tab:'' e) s
           in case tabs_create_fallback env of
                Inl e' \<Rightarrow> (Throw e', s1)
              | Inr tab \<Rightarrow> (Normal tab, s1)))"

subsection \<open>captureScreenshot\<close>

text \<open>
  The tab is made active, a timeout of 1000 ms is awaited (one more handle of the
  runtime), the visible tab is captured. The \<^verbatim>\<open>catch\<close> logs and throws the error again.
\<close>

definition captureScreenshot :: "cycle_env \<Rightarrow> nat \<Rightarrow> sw_state \<Rightarrow> string completion \<times> sw_state" where
  "captureScreenshot env tab s =
     (case tabs_update_active env of
        Some e \<Rightarrow> (Throw e, console_log (LogError ''Error capturing screenshot:'' e) s)
      | None \<Rightarrow>
          (let s1 = s\<lparr>last_handle := Suc (last_handle s)\<rparr>
           in case captureVisibleTab env of
                Inl e \<Rightarrow> (Throw e, console_log (LogError ''Error capturing screenshot:'' e) s1)
              | Inr dataUrl \<Rightarrow>
                  (Normal dataUrl, console_log (Log ''Screenshot captured successfully'') s1)))"

subsection \<open>saveScreenshot\<close>

text \<open>
  \<open>sourceUrl\<close> is what \<open>getRandomUrl\<close> returned. The filename is computed first
  (the \<^verbatim>\<open>URL\<close> constructor may throw), then the data URL is fetched and turned into a blob, then
  the download is asked for with \<^verbatim>\<open>saveAs: true\<close>. The \<^verbatim>\<open>catch\<close> logs and throws the error
  again.
\<close>

definition saveScreenshot ::
  "cycle_env \<Rightarrow> string \<Rightarrow> string option \<Rightarrow> sw_state \<Rightarrow> unit completion \<times> sw_state" where
  "saveScreenshot env dataUrl sourceUrl s =
     (case saveScreenshot_filename (URL_hostname env) (url_string sourceUrl) (save_time env) of
        Inl e \<Rightarrow> (Throw e, console_log (LogError ''Error saving screenshot:'' e) s)
      | Inr filename \<Rightarrow>
          (case fetch_blob env of
             Some e \<Rightarrow> (Throw e, console_log (LogError ''Error saving screenshot:'' e) s)
           | None \<Rightarrow>
               (case downloads_download env of
                  Some e \<Rightarrow> (Throw e, console_log (LogError ''Error saving screenshot:'' e) s)
                | None \<Rightarrow>
                    (Normal (),
                     console_log (Log (''Screenshot saved: '' @ filename))
                       (s\<lparr>downloads := downloads s @ [filename]\<rparr>)))))"

subsection \<open>updateStats\<close>

text \<open>
  The \<^verbatim>\<open>try\<close> block: \<^verbatim>\<open>(result.totalScreenshots || 0) + 1\<close> is written back with the time
  of the update. An absent key and a stored 0 both count as 0.
\<close>

definition stored_total :: "storage \<Rightarrow> nat" where
  "stored_total st = (case st_totalScreenshots st of None \<Rightarrow> 0 | Some n \<Rightarrow> n)"

definition updateStats_try :: "cycle_env \<Rightarrow> sw_state \<Rightarrow> (js_error + unit) \<times> sw_state" where
  "updateStats_try env s =
     (case storage_get env of
        Some e \<Rightarrow> (Inl e, s)
      | None \<Rightarrow>
          (let totalScreenshots = stored_total (store s) + 1
           in case storage_set env of
                Some e \<Rightarrow> (Inl e, s)
              | None \<Rightarrow>
                  (Inr (),
                   s\<lparr>store := (store s)\<lparr>st_totalScreenshots := Some totalScreenshots,
                                         st_lastRun := Some (stats_time env)\<rparr>\<rparr>)))"

text \<open>The \<^verbatim>\<open>catch\<close> of \<open>updateStats\<close> logs the error and does not throw it again.\<close>

definition updateStats :: "cycle_env \<Rightarrow> sw_state \<Rightarrow> unit completion \<times> sw_state" where
  "updateStats env s =
     (case updateStats_try env s of
        (Inr u, s1) \<Rightarrow> (Normal (), s1)
      | (Inl e, s1) \<Rightarrow> (Normal (), console_log (LogError ''Error updating stats:'' e) s1))"

subsection \<open>takeScreenshot\<close>

text \<open>
  The function up to its first \<^verbatim>\<open>await\<close>, which runs inside the caller: the first log,
  the choice of the URL, the second log (an undefined URL prints as \<^verbatim>\<open>undefined\<close>).
\<close>

definition takeScreenshot_begin :: "cycle_env \<Rightarrow> sw_state \<Rightarrow> string option \<times> sw_state" where
  "takeScreenshot_begin env s =
     (let s1 = console_log (Log ''Starting screenshot process...'') s;
          randomUrl = getRandomUrl (random env)
      in (randomUrl,
          console_log
            (Log (''Selected URL: '' @ url_string randomUrl)) s1))"

text \<open>
  The rest of the \<^verbatim>\<open>try\<close> block. The load wait takes one handle of the runtime for its
  timeout; the cycle goes on when the promise of the wait is resolved, throws when it is
  rejected, and stays where it is while the promise is pending.
\<close>

definition takeScreenshot_try ::
  "cycle_env \<Rightarrow> string option \<Rightarrow> sw_state \<Rightarrow> unit completion \<times> sw_state" where
  "takeScreenshot_try env randomUrl s =
     (case createOrUpdateTab env s of
        (Throw e, s1) \<Rightarrow> (Throw e, s1)
      | (Never, s1) \<Rightarrow> (Never, s1)
      | (Normal tab, s1) \<Rightarrow>
          (let s2 = s1\<lparr>currentTabId := Some tab\<rparr>;
               w = waitForPageLoad tab (last_handle s2) (load_events env);
               s3 = s2\<lparr>last_handle := Suc (last_handle s2),
                       console := console s2 @ wait_console w\<rparr>
           in case promise w of
                Pending \<Rightarrow> (Never, s3)
              | Rejected \<Rightarrow> (Throw (Error ''rejected''), s3)
              | Resolved \<Rightarrow>
                  (case captureScreenshot env tab s3 of
                     (Throw e, s4) \<Rightarrow> (Throw e, s4)
                   | (Never, s4) \<Rightarrow> (Never, s4)
                   | (Normal screenshotDataUrl, s4) \<Rightarrow>
                       (case saveScreenshot env screenshotDataUrl randomUrl s4 of
                          (Throw e, s5) \<Rightarrow> (Throw e, s5)
                        | (Never, s5) \<Rightarrow> (Never, s5)
                        | (Normal u, s5) \<Rightarrow>
                            (case updateStats env s5 of
                               (Throw e, s6) \<Rightarrow> (Throw e, s6)
                             | (Never, s6) \<Rightarrow> (Never, s6)
                             | (Normal u', s6) \<Rightarrow>
                                 (Normal (),
                                  console_log
                                    (Log ''Screenshot process completed successfully'') s6))))))"

text \<open>
  The \<^verbatim>\<open>catch\<close> of \<open>takeScreenshot\<close> logs the error and does not throw it again: the
  promise that \<open>takeScreenshot\<close> returns is fulfilled then, too.
\<close>

definition takeScreenshot_resume ::
  "cycle_env \<Rightarrow> string option \<Rightarrow> sw_state \<Rightarrow> unit completion \<times> sw_state" where
  "takeScreenshot_resume env randomUrl s =
     (case takeScreenshot_try env randomUrl s of
        (Throw e, s1) \<Rightarrow>
          (Normal (), console_log (LogError ''Error during screenshot process:'' e) s1)
      | r \<Rightarrow> r)"

definition takeScreenshot :: "cycle_env \<Rightarrow> sw_state \<Rightarrow> unit completion \<times> sw_state" where
  "takeScreenshot env s =
     (case takeScreenshot_begin env s of (randomUrl, s1) \<Rightarrow> takeScreenshot_resume env randomUrl s1)"

subsection \<open>startAutomatedScreenshots and stopAutomatedScreenshots\<close>

text \<open>
  What the platform answers to a start: the answers for the cycle that the start
  launches, the time of the start, and the outcome of its \<^verbatim>\<open>chrome.storage.local.set\<close>
  (a rejection is not handled by the script: nothing is written then).
\<close>

record start_env =
  first_cycle :: cycle_env
  start_time :: string
  start_storage_set :: "js_error option"

text \<open>
  The part of \<open>startAutomatedScreenshots\<close> that runs at the call. \<open>takeScreenshot()\<close> is
  not awaited: it runs to its first \<^verbatim>\<open>await\<close>, then the interval is set and the storage
  is written, and the rest of that cycle runs after the function has returned.
\<close>

definition startAutomatedScreenshots_sync ::
  "start_env \<Rightarrow> sw_state \<Rightarrow> string option option \<times> sw_state" where
  "startAutomatedScreenshots_sync senv s =
     (if isRunning s
      then (None, console_log (Log ''Screenshot process already running'') s)
      else
        (let s1 = console_log (Log ''Starting automated screenshot process'')
                    (s\<lparr>isRunning := True\<rparr>);
             (randomUrl, s2) = takeScreenshot_begin (first_cycle senv) s1;
             h = Suc (last_handle s2);
             s3 = s2\<lparr>intervalId := Some h, last_handle := h,
                     intervals := intervals s2 @ [(h, SCREENSHOT_INTERVAL)]\<rparr>;
             s4 = (case start_storage_set senv of
                     Some e \<Rightarrow> s3
                   | None \<Rightarrow>
                       s3\<lparr>store := \<lparr>st_isRunning = Some True,
                                     st_lastRun = Some (start_time senv),
                                     st_totalScreenshots = Some 0\<rparr>\<rparr>)
         in (Some randomUrl, s4)))"

definition startAutomatedScreenshots :: "start_env \<Rightarrow> sw_state \<Rightarrow> sw_state" where
  "startAutomatedScreenshots senv s =
     (case startAutomatedScreenshots_sync senv s of
        (None, s1) \<Rightarrow> s1
      | (Some randomUrl, s1) \<Rightarrow> snd (takeScreenshot_resume (first_cycle senv) randomUrl s1))"

text \<open>
  \<^verbatim>\<open>if (intervalId) { clearInterval(intervalId); intervalId = null; }\<close> and the write of
  \<^verbatim>\<open>{ isRunning: false }\<close>, which leaves the other keys as they are.
\<close>

definition stopAutomatedScreenshots :: "js_error option \<Rightarrow> sw_state \<Rightarrow> sw_state" where
  "stopAutomatedScreenshots stop_storage_set s =
     (if \<not> isRunning s then s
      else
        (let s1 = s\<lparr>isRunning := False\<rparr>;
             s2 = (case intervalId s1 of
                     Some i \<Rightarrow>
                       if i \<noteq> 0
                       then s1\<lparr>intervals := filter (\<lambda>(j, p). j \<noteq> i) (intervals s1),
                               intervalId := None\<rparr>
                       else s1
                   | None \<Rightarrow> s1);
             s3 = console_log (Log ''Stopped automated screenshot process'') s2
         in case stop_storage_set of
              Some e \<Rightarrow> s3
            | None \<Rightarrow> s3\<lparr>store := (store s3)\<lparr>st_isRunning := Some False\<rparr>\<rparr>))"

subsection \<open>The message listener and the events of the runtime\<close>

datatype action = GetStatus | Start | Stop | TakeScreenshotNow | OtherAction string

datatype response =
    Status bool "string option" nat
  | Success
  | Failure string

text \<open>
  The platform's answers to one event: those of a start, those of a cycle, and the
  outcome of the storage call of a stop or of a status request.
\<close>

record event_env =
  for_start :: start_env
  for_cycle :: cycle_env
  for_storage :: "js_error option"

text \<open>
  The listener of \<^verbatim>\<open>chrome.runtime.onMessage\<close>: the response sent, if any, and the state.
  \<open>getStatus\<close> answers from the storage, but \<open>isRunning\<close> from the global; no response is
  sent when the read is rejected. \<open>takeScreenshotNow\<close> answers from the settlement of the
  promise of \<open>takeScreenshot\<close>: \<^verbatim>\<open>then\<close> sends success, \<^verbatim>\<open>catch\<close> sends the failure with the
  message of the error.
\<close>

fun onMessage :: "action \<Rightarrow> event_env \<Rightarrow> sw_state \<Rightarrow> response option \<times> sw_state" where
  "onMessage GetStatus env s =
     (case for_storage env of
        Some e \<Rightarrow> (None, s)
      | None \<Rightarrow> (Some (Status (isRunning s) (st_lastRun (store s)) (stored_total (store s))), s))"
| "onMessage Start env s = (Some Success, startAutomatedScreenshots (for_start env) s)"
| "onMessage Stop env s = (Some Success, stopAutomatedScreenshots (for_storage env) s)"
| "onMessage TakeScreenshotNow env s =
     (case takeScreenshot (for_cycle env) s of
        (Normal u, s1) \<Rightarrow> (Some Success, s1)
      | (Throw (Error message), s1) \<Rightarrow> (Some (Failure message), s1)
      | (Never, s1) \<Rightarrow> (None, s1))"
| "onMessage (OtherAction a) env s = (None, s)"

text \<open>
  The events that reach the script: the extension starts up or is installed (both start
  the process), a message arrives, an interval of the runtime ticks (the callback runs
  only for an interval that is still active), the extension is suspended.
\<close>

datatype event = OnStartup | OnInstalled | Message action | IntervalTick nat | OnSuspend

fun step :: "sw_state \<Rightarrow> event \<times> event_env \<Rightarrow> sw_state" where
  "step s (OnStartup, env) =
     startAutomatedScreenshots (for_start env)
       (console_log (Log ''Extension starting up - initializing screenshot process'') s)"
| "step s (OnInstalled, env) =
     startAutomatedScreenshots (for_start env)
       (console_log (Log ''Extension installed - initializing screenshot process'') s)"
| "step s (Message a, env) = snd (onMessage a env s)"
| "step s (IntervalTick i, env) =
     (if i \<in> fst ` set (intervals s) then snd (takeScreenshot (for_cycle env) s) else s)"
| "step s (OnSuspend, env) =
     stopAutomatedScreenshots (for_storage env)
       (console_log (Log ''Extension suspending - stopping screenshot process'') s)"

definition steps :: "sw_state \<Rightarrow> (event \<times> event_env) list \<Rightarrow> sw_state" where
  "steps s evs = foldl step s evs"

section \<open>Example answers of the platform\<close>

text \<open>
  The hostnames that the platform's parser gives for the four URLs of \<open>TARGET_URLS\<close> and
  for the URL of the specification's example. The example parser answers from this table;
  on a string outside the table it answers with the error of an invalid URL, which stands
  for nothing the platform does and is used by no theorem.
\<close>

definition example_hostnames :: "(string \<times> string) list" where
  "example_hostnames =
     [(''https://www.competitiondatabase.co.uk'', ''www.competitiondatabase.co.uk''),
      (''https://www.facebook.com'', ''www.facebook.com''),
      (''https://www.google.com'', ''www.google.com''),
      (''https://www.yahoo.com'', ''www.yahoo.com''),
      (''https://www.example.com'', ''www.example.com'')]"

definition example_URL_hostname :: "string \<Rightarrow> js_error + string" where
  "example_URL_hostname u =
     (case map_of example_hostnames u of
        Some hostname \<Rightarrow> Inr hostname
      | None \<Rightarrow> Inl (Error ''Invalid URL''))"

text \<open>
  A cycle in which every call succeeds: the active tab 7 is reused, its status is already
  \<^verbatim>\<open>complete\<close> when \<^verbatim>\<open>chrome.tabs.get\<close> answers after 10 ms, the capture and the download
  succeed, and so do the storage calls.
\<close>

definition env_ok :: cycle_env where
  "env_ok =
     \<lparr>random = 1 / 2, tabs_query = Inr (Some 7), tabs_update_url = None,
      tabs_create = Inr 8, tabs_create_fallback = Inr 9,
      load_events = [(10, TabsGetResolved Complete)], tabs_update_active = None,
      captureVisibleTab = Inr ''data:image/png;base64,iVBORw0KGgo='',
      URL_hostname = example_URL_hostname, fetch_blob = None,
      downloads_download = None, save_time = ''2024-01-15T10:30:00.000Z'',
      storage_get = None, storage_set = None, stats_time = ''2024-01-15T10:30:01.000Z''\<rparr>"

definition start_ok :: start_env where
  "start_ok = \<lparr>first_cycle = env_ok, start_time = ''2024-01-15T10:29:58.000Z'',
               start_storage_set = None\<rparr>"

definition event_ok :: event_env where
  "event_ok = \<lparr>for_start = start_ok, for_cycle = env_ok, for_storage = None\<rparr>"

text \<open>
  The same cycle, but the download is refused (the promise of
  \<^verbatim>\<open>chrome.downloads.download\<close> is rejected), and the same cycle, but the write of the
  statistics is refused.
\<close>

definition env_save_fails :: cycle_env where
  "env_save_fails = env_ok\<lparr>downloads_download := Some (Error ''Download canceled by the user'')\<rparr>"

definition env_stats_fails :: cycle_env where
  "env_stats_fails = env_ok\<lparr>storage_set := Some (Error ''QUOTA_BYTES quota exceeded'')\<rparr>"

definition event_save_fails :: event_env where
  "event_save_fails = event_ok\<lparr>for_cycle := env_save_fails\<rparr>"

definition event_stats_fails :: event_env where
  "event_stats_fails = event_ok\<lparr>for_cycle := env_stats_fails\<rparr>"

section \<open>Cycles whose steps succeed\<close>

text \<open>
  Every step of a cycle before \<open>updateStats\<close> succeeds: a tab is obtained (in the \<^verbatim>\<open>try\<close>
  block of \<open>createOrUpdateTab\<close> or by its fallback), the tab is activated and captured,
  the filename can be computed, the data URL is fetched and the download is accepted.
\<close>

definition steps_to_save_succeed :: "cycle_env \<Rightarrow> string option \<Rightarrow> bool" where
  "steps_to_save_succeed env randomUrl =
     ((\<not> isl (createOrUpdateTab_try env) \<or> \<not> isl (tabs_create_fallback env))
      \<and> tabs_update_active env = None
      \<and> \<not> isl (captureVisibleTab env)
      \<and> \<not> isl (URL_hostname env (url_string randomUrl))
      \<and> fetch_blob env = None
      \<and> downloads_download env = None)"

text \<open>The storage calls of \<open>updateStats\<close> succeed as well.\<close>

definition stats_succeed :: "cycle_env \<Rightarrow> bool" where
  "stats_succeed env = (storage_get env = None \<and> storage_set env = None)"

section \<open>Observing the capture step\<close>

text \<open>
  The console shows that \<open>captureScreenshot\<close> was reached: it logs either its success
  or its error.
\<close>

definition capture_logged :: "log_entry list \<Rightarrow> bool" where
  "capture_logged ls =
     (\<exists>l\<in>set ls. l = Log ''Screenshot captured successfully''
                  \<or> (\<exists>e. l = LogError ''Error capturing screenshot:'' e))"

section \<open>The invariant of the load wait\<close>

text \<open>
  What holds of a call of \<open>waitForPageLoad\<close> from the end of its executor on: both local
  variables are assigned and the handle is not 0; while the promise is pending the timeout
  is pending with the deadline of the bound, the listener is registered and the bound
  has not passed; once the promise is resolved neither is left, and the resolution was
  within the bound; the promise is never rejected.
\<close>

definition wait_inv :: "wait_state \<Rightarrow> bool" where
  "wait_inv w =
     (loadingListener w \<and>
      (case timeoutId w of
         None \<Rightarrow> False
       | Some i \<Rightarrow>
           i \<noteq> 0 \<and>
           (case promise w of
              Pending \<Rightarrow>
                timer w = Some (i, PAGE_LOAD_TIMEOUT) \<and> listener_registered w \<and>
                clock w < PAGE_LOAD_TIMEOUT \<and> resolved_at w = None
            | Resolved \<Rightarrow>
                timer w = None \<and> \<not> listener_registered w \<and>
                (case resolved_at w of None \<Rightarrow> False | Some t \<Rightarrow> t \<le> PAGE_LOAD_TIMEOUT)
            | Rejected \<Rightarrow> False)))"

section \<open>Properties of getRandomUrl\<close>

lemma length_TARGET_URLS: "length TARGET_URLS = 4"
  by (simp add: TARGET_URLS_def)

lemma randomIndex_bounds:
  assumes "0 \<le> r" and "r < 1"
  shows "0 \<le> randomIndex r \<and> randomIndex r < 4"
proof -
  have "0 \<le> r * 4" using assms by simp
  moreover have "r * 4 < 4" using assms by simp
  ultimately show ?thesis
    by (simp add: randomIndex_def length_TARGET_URLS floor_less_iff)
qed

lemma randomIndex_quarter:
  "(randomIndex r = int i) = (real i / 4 \<le> r \<and> r < (real i + 1) / 4)"
  by (auto simp: randomIndex_def length_TARGET_URLS floor_eq_iff field_simps)

lemma getRandomUrl_each:
  "getRandomUrl 0 = Some (TARGET_URLS ! 0) \<and> getRandomUrl (1/4) = Some (TARGET_URLS ! 1)
   \<and> getRandomUrl (1/2) = Some (TARGET_URLS ! 2) \<and> getRandomUrl (3/4) = Some (TARGET_URLS ! 3)"
  by (simp add: getRandomUrl_def randomIndex_def length_TARGET_URLS)

lemma every_url_selectable:
  assumes "u \<in> set TARGET_URLS"
  shows "\<exists>r. 0 \<le> r \<and> r < 1 \<and> getRandomUrl r = Some u"
proof -
  from assms obtain i where i: "i < 4" "u = TARGET_URLS ! i"
    by (metis in_set_conv_nth length_TARGET_URLS)
  then consider "i = 0" | "i = 1" | "i = 2" | "i = 3" by linarith
  then show ?thesis
  proof cases
    case 1 then show ?thesis using i getRandomUrl_each by (intro exI[of _ 0]) simp
  next
    case 2 then show ?thesis using i getRandomUrl_each by (intro exI[of _ "1/4"]) simp
  next
    case 3 then show ?thesis using i getRandomUrl_each by (intro exI[of _ "1/2"]) simp
  next
    case 4 then show ?thesis using i getRandomUrl_each by (intro exI[of _ "3/4"]) simp
  qed
qed

text \<open>
  Claim C9. For every value of \<^verbatim>\<open>Math.random()\<close> in \<open>[0, 1)\<close> the computed index is within
  the bounds of the four-entry list \<open>TARGET_URLS\<close>, and \<open>getRandomUrl\<close> returns the one
  element of the list at that index. The selection is uniform: index \<open>i\<close> is computed
  exactly for the random values of the quarter \<open>[i/4, (i+1)/4)\<close>. It depends on the random
  value only, not on any earlier selection, so every URL of the list can be selected in
  every cycle, repeats included.
\<close>

theorem getRandomUrl_selects_one:
  assumes "0 \<le> r" and "r < 1"
  shows "length TARGET_URLS = 4
       \<and> 0 \<le> randomIndex r \<and> randomIndex r < int (length TARGET_URLS)
       \<and> getRandomUrl r = Some (TARGET_URLS ! nat (randomIndex r))
       \<and> (\<exists>u. getRandomUrl r = Some u \<and> u \<in> set TARGET_URLS)
       \<and> (\<forall>i<4. (randomIndex r = int i) = (real i / 4 \<le> r \<and> r < (real i + 1) / 4))
       \<and> (\<forall>u\<in>set TARGET_URLS. \<exists>r'. 0 \<le> r' \<and> r' < 1 \<and> getRandomUrl r' = Some u)"
proof -
  have b: "0 \<le> randomIndex r \<and> randomIndex r < 4"
    using assms by (rule randomIndex_bounds)
  then have g: "getRandomUrl r = Some (TARGET_URLS ! nat (randomIndex r))"
    by (simp add: getRandomUrl_def length_TARGET_URLS)
  have "nat (randomIndex r) < length TARGET_URLS"
    using b unfolding length_TARGET_URLS by linarith
  then have m: "TARGET_URLS ! nat (randomIndex r) \<in> set TARGET_URLS"
    by (rule nth_mem)
  show ?thesis
    using b g m randomIndex_quarter every_url_selectable
    by (simp add: length_TARGET_URLS)
qed

theorem getRandomUrl_selects_one_witness:
  "(0::real) \<le> 3/4 \<and> (3/4::real) < 1
   \<and> getRandomUrl (3/4) = Some ''https://www.yahoo.com''
   \<and> randomIndex (3/4) = 3"
proof -
  have a: "(0::real) \<le> 3/4" and b: "(3/4::real) < 1" by simp_all
  from getRandomUrl_selects_one[OF a b]
  have "getRandomUrl (3/4) = Some (TARGET_URLS ! nat (randomIndex (3/4)))"
    and "\<forall>i<4. (randomIndex (3/4) = int i) = (real i / 4 \<le> 3/4 \<and> 3/4 < (real i + 1) / 4)"
    by blast+
  then have g: "getRandomUrl (3/4) = Some (TARGET_URLS ! nat (randomIndex (3/4)))"
    and q: "(3::nat) < 4 \<longrightarrow>
            (randomIndex (3/4) = int 3) = (real 3 / 4 \<le> 3/4 \<and> (3/4::real) < (real 3 + 1) / 4)"
    by blast+
  from q have i: "randomIndex (3/4) = 3" by simp
  show ?thesis using a b g i by (simp add: TARGET_URLS_def)
qed

section \<open>Properties of the filename\<close>

lemma js_replace_leading: "js_replace pat rep (pat @ t) = rep @ t"
proof (cases "pat @ t")
  case Nil
  then show ?thesis by simp
next
  case (Cons a list)
  have p: "prefix pat (a # list)"
    unfolding Cons[symmetric] by simp
  have d: "drop (length pat) (a # list) = t"
    unfolding Cons[symmetric] by simp
  show ?thesis
    unfolding Cons using p d by simp
qed

lemma slice_0_minus5_append: "length b = 5 \<Longrightarrow> slice_0_minus5 (a @ b) = a"
  by (simp add: slice_0_minus5_def)

lemma js_replace_absent: "\<not> sublist pat s \<Longrightarrow> js_replace pat rep s = s"
proof (induction s)
  case Nil
  then show ?case by auto
next
  case (Cons c cs)
  then show ?case by (simp add: sublist_Cons_right)
qed

lemma replace_colon_period_id:
  "\<forall>c\<in>set s. c \<noteq> CHR '':'' \<and> c \<noteq> CHR ''.'' \<Longrightarrow> replace_colon_period s = s"
  unfolding replace_colon_period_def by (induction s) auto

lemma replace_colon_period_append:
  "replace_colon_period (a @ b) = replace_colon_period a @ replace_colon_period b"
  by (simp add: replace_colon_period_def)

lemma length_replace_colon_period: "length (replace_colon_period s) = length s"
  by (simp add: replace_colon_period_def)

lemma timestamp_of_iso:
  assumes "length ms = 3"
    and "\<forall>c\<in>set (date @ hh @ mm @ ss). c \<noteq> CHR '':'' \<and> c \<noteq> CHR ''.''"
  shows "timestamp_of (date @ ''T'' @ hh @ '':'' @ mm @ '':'' @ ss @ ''.'' @ ms @ ''Z'')
         = date @ ''T'' @ hh @ ''-'' @ mm @ ''-'' @ ss"
proof -
  let ?keep = "date @ ''T'' @ hh @ ''-'' @ mm @ ''-'' @ ss"
  let ?tail = "''-'' @ replace_colon_period ms @ ''Z''"
  have d: "replace_colon_period date = date" "replace_colon_period hh = hh"
    "replace_colon_period mm = mm" "replace_colon_period ss = ss"
    using assms(2) by (auto intro: replace_colon_period_id)
  have c: "replace_colon_period '':'' = ''-''" "replace_colon_period ''.'' = ''-''"
    "replace_colon_period ''T'' = ''T''" "replace_colon_period ''Z'' = ''Z''"
    by (simp_all add: replace_colon_period_def)
  have r: "replace_colon_period (date @ ''T'' @ hh @ '':'' @ mm @ '':'' @ ss @ ''.'' @ ms @ ''Z'')
           = ?keep @ ?tail"
    by (simp only: replace_colon_period_append d c append_assoc)
  have l: "length ?tail = 5"
    using assms(1) by (simp add: length_replace_colon_period)
  have "slice_0_minus5 (?keep @ ?tail) = ?keep"
    using l by (rule slice_0_minus5_append)
  then show ?thesis by (simp only: timestamp_of_def r)
qed

lemma saveScreenshot_filename_Inr:
  "hostname_of sourceUrl = Inr hostname \<Longrightarrow>
   saveScreenshot_filename hostname_of sourceUrl isoTime
   = Inr (''screenshot_'' @ urlDomain hostname @ ''_'' @ timestamp_of isoTime @ ''.png'')"
  by (simp add: saveScreenshot_filename_def filename_of_def)

lemma timestamp_of_example:
  "timestamp_of ''2024-01-15T10:30:00.000Z'' = ''2024-01-15T10-30-00''"
  by (simp add: timestamp_of_def slice_0_minus5_def replace_colon_period_def)

text \<open>
  Against claim C3 as stated, for the hostname \<^verbatim>\<open>m.www.example.com\<close> (that of the URL
  \<^verbatim>\<open>https://m.www.example.com\<close>): \<^verbatim>\<open>replace('www.', '')\<close> removes the first occurrence of
  \<^verbatim>\<open>www.\<close> wherever it stands, so the filename of the code is not the one with only a
  leading \<^verbatim>\<open>www.\<close> stripped.
\<close>

theorem saveScreenshot_filename_counterexample:
  "filename_of ''m.www.example.com'' ''2024-01-15T10:30:00.000Z''
     = ''screenshot_m.example.com_2024-01-15T10-30-00.png''
   \<and> spec_filename_of ''m.www.example.com'' ''2024-01-15T10:30:00.000Z''
     = ''screenshot_m.www.example.com_2024-01-15T10-30-00.png''
   \<and> filename_of ''m.www.example.com'' ''2024-01-15T10:30:00.000Z''
     \<noteq> spec_filename_of ''m.www.example.com'' ''2024-01-15T10:30:00.000Z''"
  by (simp add: filename_of_def spec_filename_of_def spec_strip_leading_www_def urlDomain_def
      timestamp_of_example)

text \<open>
  Claim C3, amended. Whatever the platform's URL parser \<open>hostname_of\<close> is, the filename
  is a function of the source URL and of the ISO timestamp, of the form
  \<^verbatim>\<open>screenshot_<host>_<timestamp>.png\<close>, and a URL that the parser refuses gives the
  parser's error. For a timestamp \<^verbatim>\<open><date>T<hh>:<mm>:<ss>.<ms>Z\<close> with three digits of
  milliseconds, \<^verbatim>\<open><timestamp>\<close> is \<^verbatim>\<open><date>T<hh>-<mm>-<ss>\<close>. \<^verbatim>\<open><host>\<close> is the hostname
  without its leading \<^verbatim>\<open>www.\<close> when the hostname starts with \<^verbatim>\<open>www.\<close>, and it is the
  hostname itself when \<^verbatim>\<open>www.\<close> does not occur in it. The URL
  \<^verbatim>\<open>https://www.example.com\<close>, whose hostname is \<^verbatim>\<open>www.example.com\<close>, gives
  \<^verbatim>\<open>screenshot_example.com_2024-01-15T10-30-00.png\<close> at \<^verbatim>\<open>2024-01-15T10:30:00.000Z\<close>.
\<close>

theorem saveScreenshot_filename_format:
  assumes "hostname_of sourceUrl = Inr hostname"
    and "isoTime = date @ ''T'' @ hh @ '':'' @ mm @ '':'' @ ss @ ''.'' @ ms @ ''Z''"
    and "length ms = 3"
    and "\<forall>c\<in>set (date @ hh @ mm @ ss). c \<noteq> CHR '':'' \<and> c \<noteq> CHR ''.''"
  shows "(\<forall>h. hostname = ''www.'' @ h \<longrightarrow>
            saveScreenshot_filename hostname_of sourceUrl isoTime
            = Inr (''screenshot_'' @ h @ ''_'' @ date @ ''T'' @ hh @ ''-'' @ mm @ ''-'' @ ss @ ''.png''))
       \<and> (\<not> sublist ''www.'' hostname \<longrightarrow>
            saveScreenshot_filename hostname_of sourceUrl isoTime
            = Inr (''screenshot_'' @ hostname @ ''_'' @ date @ ''T'' @ hh @ ''-'' @ mm @ ''-'' @ ss @ ''.png''))
       \<and> (\<forall>url e t. hostname_of url = Inl e \<longrightarrow>
            saveScreenshot_filename hostname_of url t = Inl e)
       \<and> (hostname_of ''https://www.example.com'' = Inr ''www.example.com'' \<longrightarrow>
            saveScreenshot_filename hostname_of ''https://www.example.com''
              ''2024-01-15T10:30:00.000Z''
            = Inr ''screenshot_example.com_2024-01-15T10-30-00.png'')"
proof -
  have t: "timestamp_of isoTime = date @ ''T'' @ hh @ ''-'' @ mm @ ''-'' @ ss"
    unfolding assms(2) using assms(3,4) by (rule timestamp_of_iso)
  have f: "saveScreenshot_filename hostname_of sourceUrl isoTime
           = Inr (''screenshot_'' @ urlDomain hostname @ ''_'' @ timestamp_of isoTime @ ''.png'')"
    using assms(1) by (rule saveScreenshot_filename_Inr)
  have a: "\<forall>h. hostname = ''www.'' @ h \<longrightarrow> urlDomain hostname = h"
    unfolding urlDomain_def using js_replace_leading[of "''www.''" "[]"] by auto
  have b: "\<not> sublist ''www.'' hostname \<longrightarrow> urlDomain hostname = hostname"
    unfolding urlDomain_def by (simp add: js_replace_absent)
  have c: "\<forall>url e t. hostname_of url = Inl e \<longrightarrow>
            saveScreenshot_filename hostname_of url t = Inl e"
    by (simp add: saveScreenshot_filename_def)
  have x: "urlDomain ''www.example.com'' = ''example.com''"
    unfolding urlDomain_def using js_replace_leading[of "''www.''" "[]" "''example.com''"]
    by simp
  have e: "hostname_of ''https://www.example.com'' = Inr ''www.example.com'' \<longrightarrow>
            saveScreenshot_filename hostname_of ''https://www.example.com''
              ''2024-01-15T10:30:00.000Z''
            = Inr ''screenshot_example.com_2024-01-15T10-30-00.png''"
    by (simp add: saveScreenshot_filename_Inr x timestamp_of_example)
  show ?thesis
    using a b c e by (simp add: f t)
qed

lemma example_URL_hostname_google:
  "example_URL_hostname ''https://www.google.com'' = Inr ''www.google.com''"
  by (simp add: example_URL_hostname_def example_hostnames_def)

lemma example_URL_hostname_example:
  "example_URL_hostname ''https://www.example.com'' = Inr ''www.example.com''"
  by (simp add: example_URL_hostname_def example_hostnames_def)

theorem saveScreenshot_filename_format_witness:
  "example_URL_hostname ''https://www.google.com'' = Inr ''www.google.com''
   \<and> saveScreenshot_filename example_URL_hostname ''https://www.google.com''
        ''2026-03-09T23:59:07.123Z''
       = Inr ''screenshot_google.com_2026-03-09T23-59-07.png''
   \<and> example_URL_hostname ''https://www.example.com'' = Inr ''www.example.com''
   \<and> saveScreenshot_filename example_URL_hostname ''https://www.example.com''
        ''2024-01-15T10:30:00.000Z''
       = Inr ''screenshot_example.com_2024-01-15T10-30-00.png''"
proof -
  note h = example_URL_hostname_google
  note x = example_URL_hostname_example
  have i: "''2026-03-09T23:59:07.123Z''
           = ''2026-03-09'' @ ''T'' @ ''23'' @ '':'' @ ''59'' @ '':'' @ ''07'' @ ''.'' @ ''123'' @ ''Z''"
    by simp
  have l: "length ''123'' = 3" by simp
  have n: "\<forall>c\<in>set (''2026-03-09'' @ ''23'' @ ''59'' @ ''07''). c \<noteq> CHR '':'' \<and> c \<noteq> CHR ''.''"
    by simp
  note t = saveScreenshot_filename_format
    [where hostname_of = example_URL_hostname and sourceUrl = "''https://www.google.com''"
       and hostname = "''www.google.com''", OF h i l n]
  from t have "\<forall>y. ''www.google.com'' = ''www.'' @ y \<longrightarrow>
          saveScreenshot_filename example_URL_hostname ''https://www.google.com''
            ''2026-03-09T23:59:07.123Z''
          = Inr (''screenshot_'' @ y @ ''_'' @ ''2026-03-09'' @ ''T'' @ ''23'' @ ''-'' @ ''59'' @ ''-'' @ ''07'' @ ''.png'')"
    by blast
  then have g: "saveScreenshot_filename example_URL_hostname ''https://www.google.com''
            ''2026-03-09T23:59:07.123Z''
          = Inr (''screenshot_'' @ ''google.com'' @ ''_'' @ ''2026-03-09'' @ ''T'' @ ''23'' @ ''-'' @ ''59'' @ ''-'' @ ''07'' @ ''.png'')"
    by simp
  from t have "example_URL_hostname ''https://www.example.com'' = Inr ''www.example.com'' \<longrightarrow>
            saveScreenshot_filename example_URL_hostname ''https://www.example.com''
              ''2024-01-15T10:30:00.000Z''
            = Inr ''screenshot_example.com_2024-01-15T10-30-00.png''"
    by blast
  with x have e: "saveScreenshot_filename example_URL_hostname ''https://www.example.com''
              ''2024-01-15T10:30:00.000Z''
            = Inr ''screenshot_example.com_2024-01-15T10-30-00.png''"
    by blast
  show ?thesis using h g x e by simp
qed

section \<open>Properties of the load wait\<close>

lemma call_fields [simp]:
  "tabId (call c w) = tabId w" "timeoutId (call c w) = timeoutId w"
  "loadingListener (call c w) = loadingListener w" "promise (call c w) = promise w"
  "resolved_at (call c w) = resolved_at w" "timer (call c w) = timer w"
  "listener_registered (call c w) = listener_registered w"
  "get_pending (call c w) = get_pending w" "clock (call c w) = clock w"
  "listener_runs (call c w) = listener_runs w" "timeout_runs (call c w) = timeout_runs w"
  "wait_console (call c w) = wait_console w" "calls (call c w) = calls w @ [c]"
  by (simp_all add: call_def)

lemma wait_log_fields [simp]:
  "tabId (wait_log l w) = tabId w" "timeoutId (wait_log l w) = timeoutId w"
  "loadingListener (wait_log l w) = loadingListener w" "promise (wait_log l w) = promise w"
  "resolved_at (wait_log l w) = resolved_at w" "timer (wait_log l w) = timer w"
  "listener_registered (wait_log l w) = listener_registered w"
  "get_pending (wait_log l w) = get_pending w" "clock (wait_log l w) = clock w"
  "listener_runs (wait_log l w) = listener_runs w"
  "timeout_runs (wait_log l w) = timeout_runs w"
  "calls (wait_log l w) = calls w" "wait_console (wait_log l w) = wait_console w @ [l]"
  by (simp_all add: wait_log_def)

lemma clearTimeout_fields [simp]:
  "tabId (clearTimeout i w) = tabId w" "timeoutId (clearTimeout i w) = timeoutId w"
  "loadingListener (clearTimeout i w) = loadingListener w"
  "promise (clearTimeout i w) = promise w" "resolved_at (clearTimeout i w) = resolved_at w"
  "listener_registered (clearTimeout i w) = listener_registered w"
  "get_pending (clearTimeout i w) = get_pending w" "clock (clearTimeout i w) = clock w"
  "listener_runs (clearTimeout i w) = listener_runs w"
  "timeout_runs (clearTimeout i w) = timeout_runs w"
  "wait_console (clearTimeout i w) = wait_console w"
  "calls (clearTimeout i w) = calls w @ [ClearTimeout i]"
  by (simp_all add: clearTimeout_def split: option.splits)

lemma clearTimeout_timer:
  "timer (clearTimeout i w)
   = (case timer w of Some (j, d) \<Rightarrow> if j = i then None else Some (j, d) | None \<Rightarrow> None)"
  by (simp add: clearTimeout_def split: option.splits)

lemma removeListener_fields [simp]:
  "tabId (removeListener w) = tabId w" "timeoutId (removeListener w) = timeoutId w"
  "loadingListener (removeListener w) = loadingListener w"
  "promise (removeListener w) = promise w" "resolved_at (removeListener w) = resolved_at w"
  "timer (removeListener w) = timer w" "listener_registered (removeListener w) = False"
  "get_pending (removeListener w) = get_pending w" "clock (removeListener w) = clock w"
  "listener_runs (removeListener w) = listener_runs w"
  "timeout_runs (removeListener w) = timeout_runs w"
  "wait_console (removeListener w) = wait_console w"
  "calls (removeListener w) = calls w @ [RemoveListener]"
  by (simp_all add: removeListener_def)

lemma cleanup_fields [simp]:
  "tabId (cleanup w) = tabId w" "timeoutId (cleanup w) = timeoutId w"
  "loadingListener (cleanup w) = loadingListener w"
  "promise (cleanup w) = promise w" "resolved_at (cleanup w) = resolved_at w"
  "get_pending (cleanup w) = get_pending w" "clock (cleanup w) = clock w"
  "listener_runs (cleanup w) = listener_runs w"
  "timeout_runs (cleanup w) = timeout_runs w"
  "wait_console (cleanup w) = wait_console w"
  by (simp_all add: cleanup_def Let_def split: option.splits)

lemma cleanup_listener:
  "listener_registered (cleanup w) = (listener_registered w \<and> \<not> loadingListener w)"
  by (simp add: cleanup_def Let_def split: option.splits)

lemma cleanup_timer:
  "timer (cleanup w)
   = (case timeoutId w of
        None \<Rightarrow> timer w
      | Some i \<Rightarrow> if i \<noteq> 0 then timer (clearTimeout i w) else timer w)"
  by (simp add: cleanup_def Let_def split: option.splits)

lemma resolve_fields [simp]:
  "tabId (resolve w) = tabId w" "timeoutId (resolve w) = timeoutId w"
  "loadingListener (resolve w) = loadingListener w" "timer (resolve w) = timer w"
  "listener_registered (resolve w) = listener_registered w"
  "get_pending (resolve w) = get_pending w" "clock (resolve w) = clock w"
  "listener_runs (resolve w) = listener_runs w" "timeout_runs (resolve w) = timeout_runs w"
  "wait_console (resolve w) = wait_console w" "calls (resolve w) = calls w"
  by (simp_all add: resolve_def)

lemma resolve_promise:
  "promise (resolve w) = (if promise w = Pending then Resolved else promise w)"
  "resolved_at (resolve w) = (if promise w = Pending then Some (clock w) else resolved_at w)"
  by (simp_all add: resolve_def)

text \<open>The state at the end of the executor.\<close>

lemma start_fields [simp]:
  "tabId (waitForPageLoad_start tid k) = tid"
  "timeoutId (waitForPageLoad_start tid k) = Some (Suc k)"
  "loadingListener (waitForPageLoad_start tid k)"
  "promise (waitForPageLoad_start tid k) = Pending"
  "resolved_at (waitForPageLoad_start tid k) = None"
  "timer (waitForPageLoad_start tid k) = Some (Suc k, PAGE_LOAD_TIMEOUT)"
  "listener_registered (waitForPageLoad_start tid k)"
  "get_pending (waitForPageLoad_start tid k)"
  "clock (waitForPageLoad_start tid k) = 0"
  "listener_runs (waitForPageLoad_start tid k) = 0"
  "timeout_runs (waitForPageLoad_start tid k) = 0"
  "wait_console (waitForPageLoad_start tid k) = []"
  "calls (waitForPageLoad_start tid k) = [SetTimeout PAGE_LOAD_TIMEOUT, AddListener, TabsGet tid]"
  by (simp_all add: waitForPageLoad_start_def)

text \<open>The invariant, and what a settled call has left.\<close>

lemma wait_inv_pending:
  "promise w = Pending \<Longrightarrow>
   wait_inv w = (loadingListener w \<and> (\<exists>i. timeoutId w = Some i \<and> i \<noteq> 0
      \<and> timer w = Some (i, PAGE_LOAD_TIMEOUT)) \<and> listener_registered w
      \<and> clock w < PAGE_LOAD_TIMEOUT \<and> resolved_at w = None)"
  by (auto simp: wait_inv_def split: option.splits)

lemma wait_inv_settled:
  "promise w \<noteq> Pending \<Longrightarrow>
   wait_inv w = (promise w = Resolved \<and> loadingListener w
      \<and> (\<exists>i. timeoutId w = Some i \<and> i \<noteq> 0) \<and> timer w = None \<and> \<not> listener_registered w
      \<and> (\<exists>t. resolved_at w = Some t \<and> t \<le> PAGE_LOAD_TIMEOUT))"
  by (cases "promise w") (auto simp: wait_inv_def split: option.splits)

lemma wait_inv_start: "wait_inv (waitForPageLoad_start tid k)"
  by (simp add: wait_inv_pending PAGE_LOAD_TIMEOUT_def)

text \<open>A callback that cleans up and resolves, run in a state of the invariant.\<close>

lemma settle_pending:
  assumes "wait_inv w" and "promise w = Pending"
  shows "promise (resolve (cleanup w)) = Resolved"
    and "timer (resolve (cleanup w)) = None"
    and "\<not> listener_registered (resolve (cleanup w))"
    and "resolved_at (resolve (cleanup w)) = Some (clock w)"
  using assms
  by (auto simp: wait_inv_pending resolve_promise cleanup_listener cleanup_timer
      clearTimeout_timer)

lemma settle_settled:
  assumes "wait_inv w" and "promise w \<noteq> Pending"
  shows "promise (resolve (cleanup w)) = promise w"
    and "timer (resolve (cleanup w)) = None"
    and "\<not> listener_registered (resolve (cleanup w))"
    and "resolved_at (resolve (cleanup w)) = resolved_at w"
  using assms
  by (auto simp: wait_inv_settled resolve_promise cleanup_listener cleanup_timer
      clearTimeout_timer)

lemma wait_inv_settle:
  assumes "wait_inv w"
  shows "wait_inv (resolve (cleanup w))"
proof (cases "promise w = Pending")
  case True
  have "clock w < PAGE_LOAD_TIMEOUT" "loadingListener w" "\<exists>i. timeoutId w = Some i \<and> i \<noteq> 0"
    using assms True by (auto simp: wait_inv_pending)
  then show ?thesis
    using settle_pending[OF assms True] by (simp add: wait_inv_settled)
next
  case False
  then show ?thesis
    using settle_settled[OF assms False] assms by (simp add: wait_inv_settled)
qed

lemmas settle_simps = resolve_promise cleanup_listener cleanup_timer clearTimeout_timer

lemma wait_inv_advance: "wait_inv w \<Longrightarrow> wait_inv (advance t w)"
  by (cases "promise w")
     (auto simp: wait_inv_def advance_def timeout_callback_def settle_simps
      split: option.splits)

lemma wait_inv_deliver: "wait_inv w \<Longrightarrow> wait_inv (deliver e w)"
  by (cases e; cases "promise w")
     (auto simp: wait_inv_def loadingListener_callback_def get_then_def get_catch_def
        settle_simps split: option.splits)

lemma wait_inv_run: "wait_inv w \<Longrightarrow> wait_inv (run w evs)"
  by (induction w evs rule: run.induct) (simp_all add: wait_inv_advance wait_inv_deliver)

lemma advance_past_bound:
  "wait_inv w \<Longrightarrow> PAGE_LOAD_TIMEOUT \<le> t \<Longrightarrow> promise (advance t w) = Resolved"
  by (cases "promise w")
     (auto simp: wait_inv_def advance_def timeout_callback_def settle_simps
      split: option.splits)

lemma wait_inv_resolved:
  "wait_inv w \<Longrightarrow> promise w = Resolved \<Longrightarrow> timer w = None \<and> \<not> listener_registered w"
  by (simp add: wait_inv_settled)

lemma wait_inv_bound:
  "wait_inv w \<Longrightarrow> promise w \<noteq> Rejected
     \<and> (PAGE_LOAD_TIMEOUT \<le> clock w \<longrightarrow> promise w = Resolved)
     \<and> (\<forall>t. resolved_at w = Some t \<longrightarrow> t \<le> PAGE_LOAD_TIMEOUT)
     \<and> (promise w = Resolved \<longrightarrow> (\<exists>t. resolved_at w = Some t))"
  by (cases "promise w") (auto simp: wait_inv_def split: option.splits)

text \<open>Once the promise is resolved, no event and no passing of time runs a callback.\<close>

lemma resolved_advance:
  "promise w = Resolved \<Longrightarrow> timer w = None \<Longrightarrow>
   promise (advance t w) = Resolved
   \<and> listener_runs (advance t w) = listener_runs w
   \<and> timeout_runs (advance t w) = timeout_runs w"
  by (simp add: advance_def)

lemma resolved_deliver:
  "wait_inv w \<Longrightarrow> promise w = Resolved \<Longrightarrow>
   promise (deliver e w) = Resolved
   \<and> listener_runs (deliver e w) = listener_runs w
   \<and> timeout_runs (deliver e w) = timeout_runs w"
  by (cases e)
     (auto simp: wait_inv_settled get_then_def get_catch_def resolve_promise)

lemma resolved_run:
  "wait_inv w \<Longrightarrow> promise w = Resolved \<Longrightarrow>
   promise (run w evs) = Resolved
   \<and> listener_runs (run w evs) = listener_runs w
   \<and> timeout_runs (run w evs) = timeout_runs w"
proof (induction w evs rule: run.induct)
  case (1 w)
  then show ?case by simp
next
  case (2 w gap e es)
  let ?a = "advance (clock w + gap) w"
  have t: "timer w = None" using 2(2,3) wait_inv_resolved by blast
  have a: "wait_inv ?a" using 2(2) by (rule wait_inv_advance)
  have ra: "promise ?a = Resolved \<and> listener_runs ?a = listener_runs w
            \<and> timeout_runs ?a = timeout_runs w"
    using resolved_advance[OF 2(3) t] by simp
  have d: "wait_inv (deliver e ?a)" using a by (rule wait_inv_deliver)
  have rd: "promise (deliver e ?a) = Resolved
            \<and> listener_runs (deliver e ?a) = listener_runs w
            \<and> timeout_runs (deliver e ?a) = timeout_runs w"
    using resolved_deliver[OF a, of e] ra by simp
  from 2(1)[OF d] rd show ?case by simp
qed

lemma waitForPageLoad_inv: "wait_inv (waitForPageLoad tid k evs)"
  unfolding waitForPageLoad_def Let_def
  by (intro wait_inv_advance wait_inv_run wait_inv_start)

lemma waitForPageLoad_resolved: "promise (waitForPageLoad tid k evs) = Resolved"
  unfolding waitForPageLoad_def Let_def
  by (rule advance_past_bound) (simp_all add: wait_inv_run wait_inv_start)

lemma tabId_advance: "tabId (advance t w) = tabId w"
  by (simp add: advance_def timeout_callback_def split: option.splits)

lemma tabId_deliver: "tabId (deliver e w) = tabId w"
  by (cases e) (simp_all add: loadingListener_callback_def get_then_def get_catch_def)

lemma tabId_run: "tabId (run w evs) = tabId w"
  by (induction w evs rule: run.induct) (simp_all add: tabId_advance tabId_deliver)

text \<open>Every path on which a pending call is resolved leaves no timeout and no listener.\<close>

lemma pending_listener_path:
  assumes "wait_inv w" and "promise w = Pending"
  shows "let l = deliver (TabUpdated (tabId w) (Some Complete)) w
         in promise l = Resolved \<and> timer l = None \<and> \<not> listener_registered l
            \<and> listener_runs l = Suc (listener_runs w)"
  using assms
  by (auto simp: wait_inv_pending loadingListener_callback_def settle_simps)

lemma pending_timeout_path:
  assumes "wait_inv w" and "promise w = Pending" and "PAGE_LOAD_TIMEOUT \<le> t"
  shows "let a = advance t w
         in promise a = Resolved \<and> timer a = None \<and> \<not> listener_registered a
            \<and> timeout_runs a = Suc (timeout_runs w)"
  using assms
  by (auto simp: wait_inv_pending advance_def timeout_callback_def settle_simps)

lemma pending_get_paths:
  assumes "wait_inv w" and "promise w = Pending" and "get_pending w"
  shows "(let g = deliver (TabsGetResolved Complete) w
          in promise g = Resolved \<and> timer g = None \<and> \<not> listener_registered g)
       \<and> (let g = deliver (TabsGetRejected e) w
          in promise g = Resolved \<and> timer g = None \<and> \<not> listener_registered g)"
  using assms
  by (auto simp: wait_inv_pending get_then_def get_catch_def settle_simps)

text \<open>
  Claim C1. The race of \<open>waitForPageLoad\<close> is mutually cancelling. In every state \<open>w\<close>
  that the call reaches: if the promise is resolved, no timeout is pending and the
  listener is not registered, and whatever events and time follow, the listener and the
  timeout callback are not run again and nothing is registered again; if the promise is
  pending, each of the paths that resolve it (a \<^verbatim>\<open>complete\<close> update of the awaited tab
  reaching the listener, the timeout firing, the status check answering \<^verbatim>\<open>complete\<close>, the
  status check failing) clears the timeout and removes the listener. The call as the
  cycle awaits it ends resolved with neither left.
\<close>

theorem waitForPageLoad_race_cancels:
  "let w = run (waitForPageLoad_start tid k) evs;
       c = waitForPageLoad tid k evs
   in (promise w = Resolved \<longrightarrow>
         timer w = None \<and> \<not> listener_registered w \<and>
         (\<forall>later. timer (run w later) = None \<and> \<not> listener_registered (run w later)
                   \<and> listener_runs (run w later) = listener_runs w
                   \<and> timeout_runs (run w later) = timeout_runs w))
    \<and> (promise w = Pending \<longrightarrow>
         (let l = deliver (TabUpdated tid (Some Complete)) w
          in promise l = Resolved \<and> timer l = None \<and> \<not> listener_registered l
             \<and> listener_runs l = Suc (listener_runs w))
       \<and> (\<forall>t\<ge>PAGE_LOAD_TIMEOUT.
            let a = advance t w
            in promise a = Resolved \<and> timer a = None \<and> \<not> listener_registered a
               \<and> timeout_runs a = Suc (timeout_runs w))
       \<and> (get_pending w \<longrightarrow>
            (\<forall>e. (let g = deliver (TabsGetResolved Complete) w
                  in promise g = Resolved \<and> timer g = None \<and> \<not> listener_registered g)
               \<and> (let g = deliver (TabsGetRejected e) w
                  in promise g = Resolved \<and> timer g = None \<and> \<not> listener_registered g))))
    \<and> promise c = Resolved \<and> timer c = None \<and> \<not> listener_registered c"
proof -
  define w where "w = run (waitForPageLoad_start tid k) evs"
  define c where "c = waitForPageLoad tid k evs"
  have iw: "wait_inv w"
    unfolding w_def by (intro wait_inv_run wait_inv_start)
  have tw: "tabId w = tid"
    unfolding w_def by (simp add: tabId_run)
  have r: "timer w = None \<and> \<not> listener_registered w \<and>
         (\<forall>later. timer (run w later) = None \<and> \<not> listener_registered (run w later)
                   \<and> listener_runs (run w later) = listener_runs w
                   \<and> timeout_runs (run w later) = timeout_runs w)"
    if res: "promise w = Resolved"
  proof -
    have now: "timer w = None \<and> \<not> listener_registered w"
      using iw res by (rule wait_inv_resolved)
    have "timer (run w later) = None \<and> \<not> listener_registered (run w later)
          \<and> listener_runs (run w later) = listener_runs w
          \<and> timeout_runs (run w later) = timeout_runs w" for later
    proof -
      have il: "wait_inv (run w later)" using iw by (rule wait_inv_run)
      have rl: "promise (run w later) = Resolved
                \<and> listener_runs (run w later) = listener_runs w
                \<and> timeout_runs (run w later) = timeout_runs w"
        using iw res by (rule resolved_run)
      from il rl wait_inv_resolved[of "run w later"] show ?thesis by blast
    qed
    with now show ?thesis by blast
  qed
  have p: "(let l = deliver (TabUpdated tid (Some Complete)) w
          in promise l = Resolved \<and> timer l = None \<and> \<not> listener_registered l
             \<and> listener_runs l = Suc (listener_runs w))
       \<and> (\<forall>t\<ge>PAGE_LOAD_TIMEOUT.
            let a = advance t w
            in promise a = Resolved \<and> timer a = None \<and> \<not> listener_registered a
               \<and> timeout_runs a = Suc (timeout_runs w))
       \<and> (get_pending w \<longrightarrow>
            (\<forall>e. (let g = deliver (TabsGetResolved Complete) w
                  in promise g = Resolved \<and> timer g = None \<and> \<not> listener_registered g)
               \<and> (let g = deliver (TabsGetRejected e) w
                  in promise g = Resolved \<and> timer g = None \<and> \<not> listener_registered g)))"
    if pen: "promise w = Pending"
    using pending_listener_path[OF iw pen] pending_timeout_path[OF iw pen]
      pending_get_paths[OF iw pen] unfolding tw by blast
  have ic: "wait_inv c"
    unfolding c_def by (rule waitForPageLoad_inv)
  have rc: "promise c = Resolved"
    unfolding c_def by (rule waitForPageLoad_resolved)
  have q: "promise c = Resolved \<and> timer c = None \<and> \<not> listener_registered c"
    using wait_inv_resolved[OF ic rc] rc by simp
  show ?thesis
    unfolding Let_def w_def[symmetric] c_def[symmetric]
    using r p q unfolding Let_def by blast
qed

lemma clock_advance: "clock (advance t w) = max (clock w) t"
  by (simp add: advance_def split: option.splits)

lemma run_one: "run w [(gap, e)] = deliver e (advance (clock w + gap) w)"
  by simp

lemma advance_before_deadline:
  "timer w = Some (i, d) \<Longrightarrow> t < d \<Longrightarrow> advance t w = w\<lparr>clock := max (clock w) t\<rparr>"
  by (simp add: advance_def)

lemma eval_already_complete:
  "promise (run (waitForPageLoad_start 7 0) [(10, TabsGetResolved Complete)]) = Resolved"
  by (simp add: advance_before_deadline[where i = "Suc 0" and d = PAGE_LOAD_TIMEOUT]
      PAGE_LOAD_TIMEOUT_def get_then_def resolve_promise)

theorem waitForPageLoad_race_cancels_witness:
  "promise (run (waitForPageLoad_start 7 0) [(10, TabsGetResolved Complete)]) = Resolved
   \<and> listener_runs (run (run (waitForPageLoad_start 7 0) [(10, TabsGetResolved Complete)])
                      [(20000, TabUpdated 7 (Some Complete))])
     = listener_runs (run (waitForPageLoad_start 7 0) [(10, TabsGetResolved Complete)])
   \<and> timeout_runs (run (run (waitForPageLoad_start 7 0) [(10, TabsGetResolved Complete)])
                      [(20000, TabUpdated 7 (Some Complete))])
     = timeout_runs (run (waitForPageLoad_start 7 0) [(10, TabsGetResolved Complete)])
   \<and> promise (run (waitForPageLoad_start 7 0) []) = Pending
   \<and> get_pending (run (waitForPageLoad_start 7 0) [])
   \<and> PAGE_LOAD_TIMEOUT \<le> 15000
   \<and> timer (advance 15000 (run (waitForPageLoad_start 7 0) [])) = None
   \<and> \<not> listener_registered (deliver (TabsGetRejected (Error ''No tab with id: 7.''))
                               (run (waitForPageLoad_start 7 0) []))"
proof -
  have a: "promise (run (waitForPageLoad_start 7 0) [(10, TabsGetResolved Complete)]) = Resolved"
    by (rule eval_already_complete)
  have b: "promise (run (waitForPageLoad_start 7 0) []) = Pending"
    and g: "get_pending (run (waitForPageLoad_start 7 0) [])"
    and t: "PAGE_LOAD_TIMEOUT \<le> 15000"
    by (simp_all add: PAGE_LOAD_TIMEOUT_def)
  from waitForPageLoad_race_cancels[of 7 0 "[(10, TabsGetResolved Complete)]"] a
  have r: "\<forall>later. listener_runs (run (run (waitForPageLoad_start 7 0)
                      [(10, TabsGetResolved Complete)]) later)
                  = listener_runs (run (waitForPageLoad_start 7 0) [(10, TabsGetResolved Complete)])
              \<and> timeout_runs (run (run (waitForPageLoad_start 7 0)
                      [(10, TabsGetResolved Complete)]) later)
                  = timeout_runs (run (waitForPageLoad_start 7 0) [(10, TabsGetResolved Complete)])"
    unfolding Let_def by blast
  from waitForPageLoad_race_cancels[of 7 0 "[]"] b g t
  have p: "timer (advance 15000 (run (waitForPageLoad_start 7 0) [])) = None
     \<and> \<not> listener_registered (deliver (TabsGetRejected (Error ''No tab with id: 7.''))
                               (run (waitForPageLoad_start 7 0) []))"
    unfolding Let_def by blast
  show ?thesis using a b g t r p by blast
qed

text \<open>
  Against claim C4 as stated: in the executor the request for the tab's status is the
  last of the three calls, made after the timeout is set and the listener is registered,
  not before either.
\<close>

theorem waitForPageLoad_check_order_counterexample:
  "calls (waitForPageLoad_start 7 0) = [SetTimeout 15000, AddListener, TabsGet 7]
   \<and> \<not> called_before (TabsGet 7) (SetTimeout 15000) (calls (waitForPageLoad_start 7 0))
   \<and> \<not> called_before (TabsGet 7) AddListener (calls (waitForPageLoad_start 7 0))"
  by (simp add: PAGE_LOAD_TIMEOUT_def)

text \<open>
  Claim C4, amended. In the load wait the timeout is set first, the listener is
  registered second, and the already-loaded check (the request for the tab's status) is
  made after both. At the end of the executor the timeout is pending, the listener is
  registered, the check is outstanding and the promise is pending; when the check answers
  \<^verbatim>\<open>complete\<close> the call resolves at once, clearing the timeout and removing the listener.
\<close>

theorem waitForPageLoad_check_order:
  "calls (waitForPageLoad_start tid k) = [SetTimeout PAGE_LOAD_TIMEOUT, AddListener, TabsGet tid]
   \<and> called_before (SetTimeout PAGE_LOAD_TIMEOUT) AddListener (calls (waitForPageLoad_start tid k))
   \<and> called_before AddListener (TabsGet tid) (calls (waitForPageLoad_start tid k))
   \<and> called_before (SetTimeout PAGE_LOAD_TIMEOUT) (TabsGet tid) (calls (waitForPageLoad_start tid k))
   \<and> timer (waitForPageLoad_start tid k) = Some (Suc k, PAGE_LOAD_TIMEOUT)
   \<and> listener_registered (waitForPageLoad_start tid k)
   \<and> get_pending (waitForPageLoad_start tid k)
   \<and> promise (waitForPageLoad_start tid k) = Pending
   \<and> promise (deliver (TabsGetResolved Complete) (waitForPageLoad_start tid k)) = Resolved
   \<and> timer (deliver (TabsGetResolved Complete) (waitForPageLoad_start tid k)) = None
   \<and> \<not> listener_registered (deliver (TabsGetResolved Complete) (waitForPageLoad_start tid k))
   \<and> resolved_at (deliver (TabsGetResolved Complete) (waitForPageLoad_start tid k)) = Some 0"
  by (simp add: get_then_def settle_simps)

section \<open>Properties of a cycle\<close>

lemma console_log_fields [simp]:
  "isRunning (console_log l s) = isRunning s" "intervalId (console_log l s) = intervalId s"
  "currentTabId (console_log l s) = currentTabId s" "store (console_log l s) = store s"
  "intervals (console_log l s) = intervals s" "last_handle (console_log l s) = last_handle s"
  "downloads (console_log l s) = downloads s" "console (console_log l s) = console s @ [l]"
  by (simp_all add: console_log_def)

lemma captureScreenshot_logs:
  "capture_logged (console (snd (captureScreenshot env tab s)))"
  by (auto simp: captureScreenshot_def capture_logged_def Let_def
      split: option.splits sum.splits)

lemma saveScreenshot_console:
  "set (console s) \<subseteq> set (console (snd (saveScreenshot env d u s)))"
  by (auto simp: saveScreenshot_def split: option.splits sum.splits)

lemma updateStats_console:
  "set (console s) \<subseteq> set (console (snd (updateStats env s)))"
  by (auto simp: updateStats_def updateStats_try_def Let_def split: option.splits)

lemma updateStats_returns: "fst (updateStats env s) = Normal ()"
  by (simp add: updateStats_def updateStats_try_def Let_def split: option.splits)

lemma capture_logged_mono: "capture_logged ls \<Longrightarrow> set ls \<subseteq> set ls' \<Longrightarrow> capture_logged ls'"
  unfolding capture_logged_def by blast

text \<open>The part of the cycle that follows the load wait.\<close>

lemma after_capture_logged:
  assumes "capture_logged (console s4)"
  shows "capture_logged (console (snd
           (case saveScreenshot env d u s4 of
              (Throw e, s5) \<Rightarrow> (Throw e, s5)
            | (Never, s5) \<Rightarrow> (Never, s5)
            | (Normal x, s5) \<Rightarrow>
                (case updateStats env s5 of
                   (Throw e, s6) \<Rightarrow> (Throw e, s6)
                 | (Never, s6) \<Rightarrow> (Never, s6)
                 | (Normal x', s6) \<Rightarrow>
                     (Normal (),
                      console_log (Log ''Screenshot process completed successfully'') s6)))))"
proof -
  obtain r5 s5 where sv: "saveScreenshot env d u s4 = (r5, s5)" by (cases "saveScreenshot env d u s4")
  have c5: "capture_logged (console s5)"
    using capture_logged_mono[OF assms saveScreenshot_console[of s4 env d u]] sv by simp
  obtain r6 s6 where up: "updateStats env s5 = (r6, s6)" by (cases "updateStats env s5")
  have c6: "capture_logged (console s6)"
    using capture_logged_mono[OF c5 updateStats_console[of s5 env]] up by simp
  have c7: "capture_logged (console (console_log l s6))" for l
    using c6 by (rule capture_logged_mono) auto
  show ?thesis
    using c5 c6 c7 by (simp add: sv up split: completion.splits)
qed

lemma takeScreenshot_try_after_tab:
  assumes "createOrUpdateTab env s = (Normal tab, s1)"
  shows "fst (takeScreenshot_try env u s) \<noteq> Never
       \<and> capture_logged (console (snd (takeScreenshot_try env u s)))"
proof -
  define s3 where "s3 = s1\<lparr>currentTabId := Some tab, last_handle := Suc (last_handle s1),
     console := console s1 @ wait_console (waitForPageLoad tab (last_handle s1) (load_events env))\<rparr>"
  obtain r4 s4 where cp: "captureScreenshot env tab s3 = (r4, s4)"
    by (cases "captureScreenshot env tab s3")
  have c4: "capture_logged (console s4)"
    using captureScreenshot_logs[of env tab s3] cp by simp
  have n4: "r4 \<noteq> Never"
    using cp by (auto simp: captureScreenshot_def Let_def split: option.splits sum.splits)
  have t: "takeScreenshot_try env u s =
      (case (r4, s4) of
         (Throw e, s4) \<Rightarrow> (Throw e, s4)
       | (Never, s4) \<Rightarrow> (Never, s4)
       | (Normal screenshotDataUrl, s4) \<Rightarrow>
           (case saveScreenshot env screenshotDataUrl u s4 of
              (Throw e, s5) \<Rightarrow> (Throw e, s5)
            | (Never, s5) \<Rightarrow> (Never, s5)
            | (Normal x, s5) \<Rightarrow>
                (case updateStats env s5 of
                   (Throw e, s6) \<Rightarrow> (Throw e, s6)
                 | (Never, s6) \<Rightarrow> (Never, s6)
                 | (Normal x', s6) \<Rightarrow>
                     (Normal (),
                      console_log (Log ''Screenshot process completed successfully'') s6))))"
    by (simp add: takeScreenshot_try_def assms Let_def waitForPageLoad_resolved
        s3_def[symmetric] cp)
  show ?thesis
  proof (cases r4)
    case (Normal d)
    have never_save: "fst (saveScreenshot env d u s4) \<noteq> Never"
      by (auto simp: saveScreenshot_def split: option.splits sum.splits)
    obtain r5 s5 where sv: "saveScreenshot env d u s4 = (r5, s5)"
      by (cases "saveScreenshot env d u s4")
    have n5: "r5 \<noteq> Never" using never_save sv by simp
    obtain r6 s6 where up: "updateStats env s5 = (r6, s6)"
      by (cases "updateStats env s5")
    have n6: "r6 = Normal ()" using updateStats_returns[of env s5] up by simp
    have "fst (takeScreenshot_try env u s) \<noteq> Never"
      using n5 by (cases r5) (simp_all add: t Normal sv up n6)
    moreover have "capture_logged (console (snd (takeScreenshot_try env u s)))"
      using after_capture_logged[OF c4, of env d u] by (simp add: t Normal)
    ultimately show ?thesis by simp
  next
    case (Throw e)
    then show ?thesis using c4 by (simp add: t)
  next
    case Never
    then show ?thesis using n4 by simp
  qed
qed

lemma createOrUpdateTab_never: "fst (createOrUpdateTab env s) \<noteq> Never"
  by (simp add: createOrUpdateTab_def Let_def split: sum.splits)

lemma takeScreenshot_try_settles: "fst (takeScreenshot_try env u s) \<noteq> Never"
proof (cases "createOrUpdateTab env s")
  case (Pair r s1)
  show ?thesis
  proof (cases r)
    case (Normal tab)
    then show ?thesis using takeScreenshot_try_after_tab Pair by blast
  next
    case (Throw e)
    then show ?thesis by (simp add: takeScreenshot_try_def Pair)
  next
    case Never
    then show ?thesis using createOrUpdateTab_never[of env s] Pair by simp
  qed
qed

lemma get_pending_advance: "get_pending (advance t w) = get_pending w"
  by (simp add: advance_def timeout_callback_def split: option.splits)

lemma get_catch_resolves:
  assumes "wait_inv w" and "get_pending w"
  shows "promise (deliver (TabsGetRejected e) w) = Resolved"
proof (cases "promise w = Pending")
  case True
  then show ?thesis
    using pending_get_paths[OF assms(1) True assms(2), of e] by (simp add: Let_def)
next
  case False
  then have "promise w = Resolved"
    using wait_inv_bound[OF assms(1)] by (cases "promise w") simp_all
  then show ?thesis
    using resolved_deliver[OF assms(1)] by blast
qed

text \<open>The three callbacks that call \<^verbatim>\<open>resolve\<close>, each run while the promise is pending.\<close>

lemma pending_listener_resolves:
  assumes "wait_inv w" and "promise w = Pending"
  shows "promise (deliver (TabUpdated (tabId w) (Some Complete)) w) = Resolved
       \<and> resolved_at (deliver (TabUpdated (tabId w) (Some Complete)) w) = Some (clock w)"
  using assms
  by (auto simp: wait_inv_pending loadingListener_callback_def settle_simps)

lemma pending_timeout_resolves:
  assumes "wait_inv w" and "promise w = Pending" and "PAGE_LOAD_TIMEOUT \<le> t"
  shows "promise (advance t w) = Resolved
       \<and> resolved_at (advance t w) = Some PAGE_LOAD_TIMEOUT"
  using assms
  by (auto simp: wait_inv_pending advance_def timeout_callback_def settle_simps)

lemma pending_get_resolves:
  assumes "wait_inv w" and "promise w = Pending" and "get_pending w"
  shows "promise (deliver (TabsGetRejected e) w) = Resolved
       \<and> resolved_at (deliver (TabsGetRejected e) w) = Some (clock w)
       \<and> promise (deliver (TabsGetResolved Complete) w) = Resolved
       \<and> resolved_at (deliver (TabsGetResolved Complete) w) = Some (clock w)"
  using assms
  by (auto simp: wait_inv_pending get_then_def get_catch_def settle_simps)

text \<open>
  Claim C2. For every tab, every handle and every schedule of events, the promise of
  \<open>waitForPageLoad\<close> is never rejected; it is resolved once the 15000 ms of the bound
  have passed, and the time of its resolution is at most 15000 ms after the call. While
  it is pending the bound has not passed, and each of the three callbacks resolves it:
  the listener on a \<^verbatim>\<open>complete\<close> update of the awaited tab (at the time of the update),
  the timeout (at 15000 ms) and the error branch of the status check (at the time of the
  error), as does the status check that answers \<^verbatim>\<open>complete\<close>. The call as the cycle
  awaits it always ends resolved within the bound, so the cycle never stays in the wait:
  whenever a tab was obtained, the cycle reaches the capture step, whatever happened
  during the wait.
\<close>

theorem waitForPageLoad_always_resolves:
  "let w = run (waitForPageLoad_start tid k) evs;
       c = waitForPageLoad tid k evs
   in promise w \<noteq> Rejected
    \<and> (PAGE_LOAD_TIMEOUT \<le> clock w \<longrightarrow> promise w = Resolved)
    \<and> (\<forall>t. resolved_at w = Some t \<longrightarrow> t \<le> PAGE_LOAD_TIMEOUT)
    \<and> (promise w = Pending \<longrightarrow>
          clock w < PAGE_LOAD_TIMEOUT
        \<and> promise (deliver (TabUpdated tid (Some Complete)) w) = Resolved
        \<and> resolved_at (deliver (TabUpdated tid (Some Complete)) w) = Some (clock w)
        \<and> (\<forall>t\<ge>PAGE_LOAD_TIMEOUT.
              promise (advance t w) = Resolved
              \<and> resolved_at (advance t w) = Some PAGE_LOAD_TIMEOUT)
        \<and> (get_pending w \<longrightarrow>
              promise (deliver (TabsGetRejected e) w) = Resolved
              \<and> resolved_at (deliver (TabsGetRejected e) w) = Some (clock w)
              \<and> promise (deliver (TabsGetResolved Complete) w) = Resolved
              \<and> resolved_at (deliver (TabsGetResolved Complete) w) = Some (clock w)))
    \<and> (get_pending w \<longrightarrow> promise (deliver (TabsGetRejected e) w) = Resolved)
    \<and> promise c = Resolved
    \<and> (\<exists>t. resolved_at c = Some t \<and> t \<le> PAGE_LOAD_TIMEOUT)
    \<and> fst (takeScreenshot_try env randomUrl s) \<noteq> Never
    \<and> (\<forall>tab s1. createOrUpdateTab env s = (Normal tab, s1) \<longrightarrow>
          capture_logged (console (snd (takeScreenshot_try env randomUrl s))))"
proof -
  define w where "w = run (waitForPageLoad_start tid k) evs"
  define c where "c = waitForPageLoad tid k evs"
  have iw: "wait_inv w"
    unfolding w_def by (intro wait_inv_run wait_inv_start)
  have tw: "tabId w = tid"
    unfolding w_def by (simp add: tabId_run)
  have ic: "wait_inv c"
    unfolding c_def by (rule waitForPageLoad_inv)
  have rc: "promise c = Resolved"
    unfolding c_def by (rule waitForPageLoad_resolved)
  have bw: "promise w \<noteq> Rejected
     \<and> (PAGE_LOAD_TIMEOUT \<le> clock w \<longrightarrow> promise w = Resolved)
     \<and> (\<forall>t. resolved_at w = Some t \<longrightarrow> t \<le> PAGE_LOAD_TIMEOUT)"
    using wait_inv_bound[OF iw] by blast
  have pw: "clock w < PAGE_LOAD_TIMEOUT
        \<and> promise (deliver (TabUpdated tid (Some Complete)) w) = Resolved
        \<and> resolved_at (deliver (TabUpdated tid (Some Complete)) w) = Some (clock w)
        \<and> (\<forall>t\<ge>PAGE_LOAD_TIMEOUT.
              promise (advance t w) = Resolved
              \<and> resolved_at (advance t w) = Some PAGE_LOAD_TIMEOUT)
        \<and> (get_pending w \<longrightarrow>
              promise (deliver (TabsGetRejected e) w) = Resolved
              \<and> resolved_at (deliver (TabsGetRejected e) w) = Some (clock w)
              \<and> promise (deliver (TabsGetResolved Complete) w) = Resolved
              \<and> resolved_at (deliver (TabsGetResolved Complete) w) = Some (clock w))"
    if pen: "promise w = Pending"
  proof -
    have a: "clock w < PAGE_LOAD_TIMEOUT"
      using iw pen by (simp add: wait_inv_pending)
    note b = pending_listener_resolves[OF iw pen, unfolded tw]
    have c: "\<forall>t\<ge>PAGE_LOAD_TIMEOUT.
              promise (advance t w) = Resolved
              \<and> resolved_at (advance t w) = Some PAGE_LOAD_TIMEOUT"
      using pending_timeout_resolves[OF iw pen] by blast
    have d: "get_pending w \<longrightarrow>
              promise (deliver (TabsGetRejected e) w) = Resolved
              \<and> resolved_at (deliver (TabsGetRejected e) w) = Some (clock w)
              \<and> promise (deliver (TabsGetResolved Complete) w) = Resolved
              \<and> resolved_at (deliver (TabsGetResolved Complete) w) = Some (clock w)"
      using pending_get_resolves[OF iw pen] by blast
    show ?thesis using a b c d by blast
  qed
  have gw: "get_pending w \<longrightarrow> promise (deliver (TabsGetRejected e) w) = Resolved"
    using get_catch_resolves[OF iw] by blast
  have bc: "\<exists>t. resolved_at c = Some t \<and> t \<le> PAGE_LOAD_TIMEOUT"
    using wait_inv_bound[OF ic] rc by blast
  have cy: "\<forall>tab s1. createOrUpdateTab env s = (Normal tab, s1) \<longrightarrow>
          capture_logged (console (snd (takeScreenshot_try env randomUrl s)))"
    using takeScreenshot_try_after_tab by blast
  show ?thesis
    unfolding Let_def w_def[symmetric] c_def[symmetric]
    using bw pw gw rc bc cy takeScreenshot_try_settles by blast
qed

theorem waitForPageLoad_always_resolves_witness:
  "promise (run (waitForPageLoad_start 7 0) []) = Pending
   \<and> get_pending (run (waitForPageLoad_start 7 0) [])
   \<and> clock (run (waitForPageLoad_start 7 0) []) = 0
   \<and> promise (deliver (TabUpdated 7 (Some Complete)) (run (waitForPageLoad_start 7 0) []))
     = Resolved
   \<and> promise (deliver (TabsGetRejected (Error ''No tab with id: 7.''))
        (run (waitForPageLoad_start 7 0) [])) = Resolved
   \<and> resolved_at (deliver (TabsGetRejected (Error ''No tab with id: 7.''))
        (run (waitForPageLoad_start 7 0) [])) = Some 0
   \<and> PAGE_LOAD_TIMEOUT \<le> 15000
   \<and> promise (advance 15000 (run (waitForPageLoad_start 7 0) [])) = Resolved
   \<and> PAGE_LOAD_TIMEOUT \<le> clock (run (waitForPageLoad_start 7 0) [(20000, Idle)])
   \<and> promise (run (waitForPageLoad_start 7 0) [(20000, Idle)]) = Resolved
   \<and> resolved_at (run (waitForPageLoad_start 7 0) [(20000, Idle)]) = Some 15000
   \<and> 15000 \<le> PAGE_LOAD_TIMEOUT
   \<and> createOrUpdateTab env_ok initial_state = (Normal 7, initial_state)
   \<and> capture_logged (console (snd (takeScreenshot_try env_ok
        (Some ''https://www.google.com'') initial_state)))"
proof -
  let ?p = "run (waitForPageLoad_start 7 0) []"
  let ?w = "run (waitForPageLoad_start 7 0) [(20000, Idle)]"
  let ?e = "Error ''No tab with id: 7.''"
  have pp: "promise ?p = Pending" and pg: "get_pending ?p" and pc: "clock ?p = 0"
    and pt: "PAGE_LOAD_TIMEOUT \<le> 15000"
    by (simp_all add: PAGE_LOAD_TIMEOUT_def)
  have a: "PAGE_LOAD_TIMEOUT \<le> clock ?w"
    by (simp add: clock_advance PAGE_LOAD_TIMEOUT_def)
  have b: "resolved_at ?w = Some 15000"
    by (simp add: advance_def timeout_callback_def resolve_promise PAGE_LOAD_TIMEOUT_def)
  have t: "createOrUpdateTab env_ok initial_state = (Normal 7, initial_state)"
    by (simp add: createOrUpdateTab_def createOrUpdateTab_try_def env_ok_def)
  from waitForPageLoad_always_resolves
    [of 7 0 "[]" ?e env_ok "Some ''https://www.google.com''" initial_state] pp
  have l: "promise (deliver (TabUpdated 7 (Some Complete)) ?p) = Resolved"
    and m: "\<forall>t\<ge>PAGE_LOAD_TIMEOUT. promise (advance t ?p) = Resolved
              \<and> resolved_at (advance t ?p) = Some PAGE_LOAD_TIMEOUT"
    and g: "get_pending ?p \<longrightarrow>
              promise (deliver (TabsGetRejected ?e) ?p) = Resolved
              \<and> resolved_at (deliver (TabsGetRejected ?e) ?p) = Some (clock ?p)
              \<and> promise (deliver (TabsGetResolved Complete) ?p) = Resolved
              \<and> resolved_at (deliver (TabsGetResolved Complete) ?p) = Some (clock ?p)"
    unfolding Let_def by blast+
  from m pt have m': "promise (advance 15000 ?p) = Resolved" by blast
  from g pg pc have g': "promise (deliver (TabsGetRejected ?e) ?p) = Resolved"
    and g'': "resolved_at (deliver (TabsGetRejected ?e) ?p) = Some 0"
    by simp_all
  from waitForPageLoad_always_resolves
    [of 7 0 "[(20000, Idle)]" ?e env_ok "Some ''https://www.google.com''" initial_state]
  have r: "PAGE_LOAD_TIMEOUT \<le> clock ?w \<longrightarrow> promise ?w = Resolved"
    and u: "\<forall>x. resolved_at ?w = Some x \<longrightarrow> x \<le> PAGE_LOAD_TIMEOUT"
    and c: "\<forall>tab s1. createOrUpdateTab env_ok initial_state = (Normal tab, s1) \<longrightarrow>
          capture_logged (console (snd (takeScreenshot_try env_ok
            (Some ''https://www.google.com'') initial_state)))"
    unfolding Let_def by blast+
  from r a have p: "promise ?w = Resolved" by blast
  from u b have d: "15000 \<le> PAGE_LOAD_TIMEOUT" by blast
  from c t have cl: "capture_logged (console (snd (takeScreenshot_try env_ok
        (Some ''https://www.google.com'') initial_state)))" by blast
  show ?thesis using pp pg pc l g' g'' pt m' a p b d t cl by blast
qed

section \<open>The steps of a cycle, one by one\<close>

text \<open>
  What a step leaves as it is: the globals \<open>isRunning\<close> and \<open>intervalId\<close> and the
  intervals of the runtime (\<open>same_control\<close>), and the storage.
\<close>

lemma createOrUpdateTab_result:
  "fst (createOrUpdateTab env s)
   = (case createOrUpdateTab_try env of
        Inr tab \<Rightarrow> Normal tab
      | Inl e \<Rightarrow> (case tabs_create_fallback env of Inl e' \<Rightarrow> Throw e' | Inr tab \<Rightarrow> Normal tab))"
  by (simp add: createOrUpdateTab_def Let_def split: sum.splits)

lemma createOrUpdateTab_frame:
  "store (snd (createOrUpdateTab env s)) = store s"
  "isRunning (snd (createOrUpdateTab env s)) = isRunning s"
  "intervalId (snd (createOrUpdateTab env s)) = intervalId s"
  "intervals (snd (createOrUpdateTab env s)) = intervals s"
  "\<exists>ls. console (snd (createOrUpdateTab env s)) = console s @ ls"
  by (simp_all add: createOrUpdateTab_def Let_def split: sum.splits)

lemma captureScreenshot_result:
  "fst (captureScreenshot env tab s)
   = (case tabs_update_active env of
        Some e \<Rightarrow> Throw e
      | None \<Rightarrow> (case captureVisibleTab env of Inl e \<Rightarrow> Throw e | Inr d \<Rightarrow> Normal d))"
  by (simp add: captureScreenshot_def Let_def split: option.splits sum.splits)

lemma captureScreenshot_frame:
  "store (snd (captureScreenshot env tab s)) = store s"
  "isRunning (snd (captureScreenshot env tab s)) = isRunning s"
  "intervalId (snd (captureScreenshot env tab s)) = intervalId s"
  "intervals (snd (captureScreenshot env tab s)) = intervals s"
  "\<exists>ls. console (snd (captureScreenshot env tab s)) = console s @ ls"
  by (simp_all add: captureScreenshot_def Let_def split: option.splits sum.splits)

lemma saveScreenshot_result:
  "fst (saveScreenshot env d u s)
   = (case URL_hostname env (url_string u) of
        Inl e \<Rightarrow> Throw e
      | Inr hostname \<Rightarrow>
          (case fetch_blob env of
             Some e \<Rightarrow> Throw e
           | None \<Rightarrow> (case downloads_download env of Some e \<Rightarrow> Throw e | None \<Rightarrow> Normal ())))"
  by (simp add: saveScreenshot_def saveScreenshot_filename_def split: option.splits sum.splits)

lemma saveScreenshot_frame:
  "store (snd (saveScreenshot env d u s)) = store s"
  "isRunning (snd (saveScreenshot env d u s)) = isRunning s"
  "intervalId (snd (saveScreenshot env d u s)) = intervalId s"
  "intervals (snd (saveScreenshot env d u s)) = intervals s"
  "\<exists>ls. console (snd (saveScreenshot env d u s)) = console s @ ls"
  by (simp_all add: saveScreenshot_def split: option.splits sum.splits)

lemma updateStats_store:
  "store (snd (updateStats env s))
   = (if stats_succeed env
      then (store s)\<lparr>st_totalScreenshots := Some (stored_total (store s) + 1),
                     st_lastRun := Some (stats_time env)\<rparr>
      else store s)"
  by (simp add: updateStats_def updateStats_try_def stats_succeed_def Let_def
      split: option.splits)

lemma updateStats_frame:
  "isRunning (snd (updateStats env s)) = isRunning s"
  "intervalId (snd (updateStats env s)) = intervalId s"
  "intervals (snd (updateStats env s)) = intervals s"
  "\<exists>ls. console (snd (updateStats env s)) = console s @ ls"
  by (simp_all add: updateStats_def updateStats_try_def Let_def split: option.splits)

lemma updateStats_failure_logged:
  "\<not> stats_succeed env \<Longrightarrow>
   \<exists>e. console (snd (updateStats env s)) = console s @ [LogError ''Error updating stats:'' e]"
  by (auto simp: updateStats_def updateStats_try_def stats_succeed_def Let_def
      split: option.splits)

text \<open>What the steps leave of the current tab, the downloads and the runtime's handles.\<close>

lemma createOrUpdateTab_frame2:
  "downloads (snd (createOrUpdateTab env s)) = downloads s"
  "last_handle (snd (createOrUpdateTab env s)) = last_handle s"
  "currentTabId (snd (createOrUpdateTab env s)) = currentTabId s"
  by (simp_all add: createOrUpdateTab_def Let_def split: sum.splits)

lemma captureScreenshot_frame2:
  "downloads (snd (captureScreenshot env tab s)) = downloads s"
  "currentTabId (snd (captureScreenshot env tab s)) = currentTabId s"
  "fst (captureScreenshot env tab s) = Normal d \<Longrightarrow>
   last_handle (snd (captureScreenshot env tab s)) = Suc (last_handle s)"
  by (simp_all add: captureScreenshot_def Let_def split: option.splits sum.splits)

lemma saveScreenshot_frame2:
  "currentTabId (snd (saveScreenshot env d u s)) = currentTabId s"
  "last_handle (snd (saveScreenshot env d u s)) = last_handle s"
  "fst (saveScreenshot env d u s) = Normal () \<Longrightarrow>
   \<exists>hostname. URL_hostname env (url_string u) = Inr hostname
     \<and> downloads (snd (saveScreenshot env d u s))
       = downloads s @ [filename_of hostname (save_time env)]"
  by (simp_all add: saveScreenshot_def saveScreenshot_filename_def
      split: option.splits sum.splits)

lemma updateStats_frame2:
  "downloads (snd (updateStats env s)) = downloads s"
  "currentTabId (snd (updateStats env s)) = currentTabId s"
  "last_handle (snd (updateStats env s)) = last_handle s"
  by (simp_all add: updateStats_def updateStats_try_def Let_def split: option.splits)

section \<open>The cycle as a whole\<close>

text \<open>
  The four ways through the \<^verbatim>\<open>try\<close> block of \<open>takeScreenshot\<close>, with the states between
  the steps; \<open>s3\<close> is the state in which the load wait has ended.
\<close>

lemma takeScreenshot_try_cases [case_names tab_fails capture_fails save_fails completes]:
  obtains
    (tab_fails) e s1 where
      "createOrUpdateTab env s = (Throw e, s1)"
      "takeScreenshot_try env u s = (Throw e, s1)"
  | (capture_fails) tab s1 s3 e s4 where
      "createOrUpdateTab env s = (Normal tab, s1)"
      "store s3 = store s1" "isRunning s3 = isRunning s1" "intervalId s3 = intervalId s1"
      "intervals s3 = intervals s1" "\<exists>ls. console s3 = console s1 @ ls"
      "captureScreenshot env tab s3 = (Throw e, s4)"
      "takeScreenshot_try env u s = (Throw e, s4)"
  | (save_fails) tab s1 s3 d s4 e s5 where
      "createOrUpdateTab env s = (Normal tab, s1)"
      "store s3 = store s1" "isRunning s3 = isRunning s1" "intervalId s3 = intervalId s1"
      "intervals s3 = intervals s1" "\<exists>ls. console s3 = console s1 @ ls"
      "captureScreenshot env tab s3 = (Normal d, s4)"
      "saveScreenshot env d u s4 = (Throw e, s5)"
      "takeScreenshot_try env u s = (Throw e, s5)"
  | (completes) tab s1 s3 d s4 s5 s6 where
      "createOrUpdateTab env s = (Normal tab, s1)"
      "store s3 = store s1" "isRunning s3 = isRunning s1" "intervalId s3 = intervalId s1"
      "intervals s3 = intervals s1" "\<exists>ls. console s3 = console s1 @ ls"
      "captureScreenshot env tab s3 = (Normal d, s4)"
      "saveScreenshot env d u s4 = (Normal (), s5)"
      "updateStats env s5 = (Normal (), s6)"
      "takeScreenshot_try env u s
       = (Normal (), console_log (Log ''Screenshot process completed successfully'') s6)"
      "currentTabId s3 = Some tab" "downloads s3 = downloads s1"
      "last_handle s3 = Suc (last_handle s1)"
proof -
  obtain r1 s1 where c1: "createOrUpdateTab env s = (r1, s1)"
    by (cases "createOrUpdateTab env s")
  have n1: "r1 \<noteq> Never"
    using createOrUpdateTab_never[of env s] c1 by simp
  show thesis
  proof (cases r1)
    case (Throw e)
    have "takeScreenshot_try env u s = (Throw e, s1)"
      by (simp add: takeScreenshot_try_def c1 Throw)
    then show thesis using tab_fails c1 Throw by blast
  next
    case Never
    then show thesis using n1 by simp
  next
    case (Normal tab)
    define s3 where "s3 = s1\<lparr>currentTabId := Some tab, last_handle := Suc (last_handle s1),
       console := console s1 @ wait_console (waitForPageLoad tab (last_handle s1) (load_events env))\<rparr>"
    have f3: "store s3 = store s1" "isRunning s3 = isRunning s1" "intervalId s3 = intervalId s1"
      "intervals s3 = intervals s1" "\<exists>ls. console s3 = console s1 @ ls"
      by (simp_all add: s3_def)
    have g3: "currentTabId s3 = Some tab" "downloads s3 = downloads s1"
      "last_handle s3 = Suc (last_handle s1)"
      by (simp_all add: s3_def)
    obtain r4 s4 where c4: "captureScreenshot env tab s3 = (r4, s4)"
      by (cases "captureScreenshot env tab s3")
    have t4: "takeScreenshot_try env u s =
      (case (r4, s4) of
         (Throw e, s4) \<Rightarrow> (Throw e, s4)
       | (Never, s4) \<Rightarrow> (Never, s4)
       | (Normal screenshotDataUrl, s4) \<Rightarrow>
           (case saveScreenshot env screenshotDataUrl u s4 of
              (Throw e, s5) \<Rightarrow> (Throw e, s5)
            | (Never, s5) \<Rightarrow> (Never, s5)
            | (Normal x, s5) \<Rightarrow>
                (case updateStats env s5 of
                   (Throw e, s6) \<Rightarrow> (Throw e, s6)
                 | (Never, s6) \<Rightarrow> (Never, s6)
                 | (Normal x', s6) \<Rightarrow>
                     (Normal (),
                      console_log (Log ''Screenshot process completed successfully'') s6))))"
      by (simp add: takeScreenshot_try_def c1 Normal Let_def waitForPageLoad_resolved
          s3_def[symmetric] c4)
    have n4: "r4 \<noteq> Never"
      using captureScreenshot_result[of env tab s3] c4
      by (auto split: option.splits sum.splits)
    show thesis
    proof (cases r4)
      case (Throw e)
      have "takeScreenshot_try env u s = (Throw e, s4)" by (simp add: t4 Throw)
      then show thesis using capture_fails[of tab s1 s3 e s4] c1 Normal f3 c4 Throw by blast
    next
      case Never
      then show thesis using n4 by simp
    next
      case d: (Normal d)
      obtain r5 s5 where c5: "saveScreenshot env d u s4 = (r5, s5)"
        by (cases "saveScreenshot env d u s4")
      have n5: "r5 \<noteq> Never"
        using saveScreenshot_result[of env d u s4] c5
        by (auto split: option.splits sum.splits)
      show thesis
      proof (cases r5)
        case (Throw e)
        have "takeScreenshot_try env u s = (Throw e, s5)" by (simp add: t4 d c5 Throw)
        then show thesis
          using save_fails[of tab s1 s3 d s4 e s5] c1 Normal f3 c4 d c5 Throw by blast
      next
        case Never
        then show thesis using n5 by simp
      next
        case x: (Normal x)
        obtain r6 s6 where c6: "updateStats env s5 = (r6, s6)"
          by (cases "updateStats env s5")
        have n6: "r6 = Normal ()" using updateStats_returns[of env s5] c6 by simp
        have "takeScreenshot_try env u s
              = (Normal (), console_log (Log ''Screenshot process completed successfully'') s6)"
          by (simp add: t4 d c5 x c6 n6)
        then show thesis
          using completes[of tab s1 s3 d s4 s5 s6] c1 Normal f3 g3 c4 d c5 x c6 n6 by simp
      qed
    qed
  qed
qed

text \<open>The block returns exactly when every step before \<open>updateStats\<close> succeeds.\<close>

lemma takeScreenshot_try_normal_iff:
  "(fst (takeScreenshot_try env u s) = Normal ()) = steps_to_save_succeed env u"
proof (cases env u s rule: takeScreenshot_try_cases)
  case (tab_fails e s1)
  have "isl (createOrUpdateTab_try env) \<and> isl (tabs_create_fallback env)"
    using createOrUpdateTab_result[of env s] tab_fails(1) by (auto split: sum.splits)
  then show ?thesis
    by (simp add: tab_fails(2) steps_to_save_succeed_def)
next
  case (capture_fails tab s1 s3 e s4)
  have "tabs_update_active env \<noteq> None \<or> isl (captureVisibleTab env)"
    using captureScreenshot_result[of env tab s3] capture_fails(7)
    by (auto split: option.splits sum.splits)
  then show ?thesis
    by (auto simp: capture_fails(8) steps_to_save_succeed_def)
next
  case (save_fails tab s1 s3 d s4 e s5)
  have "isl (URL_hostname env (url_string u))
        \<or> fetch_blob env \<noteq> None \<or> downloads_download env \<noteq> None"
    using saveScreenshot_result[of env d u s4] save_fails(8)
    by (auto split: option.splits sum.splits)
  then show ?thesis
    by (auto simp: save_fails(9) steps_to_save_succeed_def split: option.splits)
next
  case (completes tab s1 s3 d s4 s5 s6)
  have a: "\<not> isl (createOrUpdateTab_try env) \<or> \<not> isl (tabs_create_fallback env)"
    using createOrUpdateTab_result[of env s] completes(1) by (auto split: sum.splits)
  have b: "tabs_update_active env = None \<and> \<not> isl (captureVisibleTab env)"
    using captureScreenshot_result[of env tab s3] completes(7)
    by (auto split: option.splits sum.splits)
  have c: "\<not> isl (URL_hostname env (url_string u))
        \<and> fetch_blob env = None \<and> downloads_download env = None"
    using saveScreenshot_result[of env d u s4] completes(8)
    by (auto split: option.splits sum.splits)
  show ?thesis
    using a b c by (simp add: completes(10) steps_to_save_succeed_def)
qed

lemma takeScreenshot_try_throws:
  "\<not> steps_to_save_succeed env u \<Longrightarrow> \<exists>e. fst (takeScreenshot_try env u s) = Throw e"
  using takeScreenshot_try_normal_iff[of env u s] takeScreenshot_try_settles[of env u s]
  by (cases "fst (takeScreenshot_try env u s)") simp_all

text \<open>The storage after the block: written by \<open>updateStats\<close> alone.\<close>

lemma takeScreenshot_try_store:
  "store (snd (takeScreenshot_try env u s))
   = (if steps_to_save_succeed env u \<and> stats_succeed env
      then (store s)\<lparr>st_totalScreenshots := Some (stored_total (store s) + 1),
                     st_lastRun := Some (stats_time env)\<rparr>
      else store s)"
proof (cases env u s rule: takeScreenshot_try_cases)
  case (tab_fails e s1)
  have "store s1 = store s"
    using createOrUpdateTab_frame(1)[of env s] tab_fails(1) by simp
  moreover have "\<not> steps_to_save_succeed env u"
    using takeScreenshot_try_normal_iff[of env u s] tab_fails(2) by simp
  ultimately show ?thesis by (simp add: tab_fails(2))
next
  case (capture_fails tab s1 s3 e s4)
  have "store s1 = store s"
    using createOrUpdateTab_frame(1)[of env s] capture_fails(1) by simp
  moreover have "store s4 = store s3"
    using captureScreenshot_frame(1)[of env tab s3] capture_fails(7) by simp
  moreover have "\<not> steps_to_save_succeed env u"
    using takeScreenshot_try_normal_iff[of env u s] capture_fails(8) by simp
  ultimately show ?thesis by (simp add: capture_fails(2,8))
next
  case (save_fails tab s1 s3 d s4 e s5)
  have "store s1 = store s"
    using createOrUpdateTab_frame(1)[of env s] save_fails(1) by simp
  moreover have "store s4 = store s3"
    using captureScreenshot_frame(1)[of env tab s3] save_fails(7) by simp
  moreover have "store s5 = store s4"
    using saveScreenshot_frame(1)[of env d u s4] save_fails(8) by simp
  moreover have "\<not> steps_to_save_succeed env u"
    using takeScreenshot_try_normal_iff[of env u s] save_fails(9) by simp
  ultimately show ?thesis by (simp add: save_fails(2,9))
next
  case (completes tab s1 s3 d s4 s5 s6)
  have "store s1 = store s"
    using createOrUpdateTab_frame(1)[of env s] completes(1) by simp
  moreover have "store s4 = store s3"
    using captureScreenshot_frame(1)[of env tab s3] completes(7) by simp
  moreover have "store s5 = store s4"
    using saveScreenshot_frame(1)[of env d u s4] completes(8) by simp
  ultimately have e5: "store s5 = store s" by (simp add: completes(2))
  have ok: "steps_to_save_succeed env u"
    using takeScreenshot_try_normal_iff[of env u s] completes(10) by simp
  have "store s6 = (if stats_succeed env
      then (store s5)\<lparr>st_totalScreenshots := Some (stored_total (store s5) + 1),
                      st_lastRun := Some (stats_time env)\<rparr>
      else store s5)"
    using updateStats_store[of env s5] completes(9) by simp
  then show ?thesis by (simp add: completes(10) ok e5)
qed

text \<open>The block leaves the globals of the schedule as they are and only adds to the console.\<close>

lemma takeScreenshot_try_frame:
  "isRunning (snd (takeScreenshot_try env u s)) = isRunning s
   \<and> intervalId (snd (takeScreenshot_try env u s)) = intervalId s
   \<and> intervals (snd (takeScreenshot_try env u s)) = intervals s
   \<and> (\<exists>ls. console (snd (takeScreenshot_try env u s)) = console s @ ls)"
proof (cases env u s rule: takeScreenshot_try_cases)
  case (tab_fails e s1)
  show ?thesis
    using createOrUpdateTab_frame[of env s] by (simp add: tab_fails)
next
  case (capture_fails tab s1 s3 e s4)
  have a: "isRunning s1 = isRunning s \<and> intervalId s1 = intervalId s
      \<and> intervals s1 = intervals s \<and> (\<exists>ls. console s1 = console s @ ls)"
    using createOrUpdateTab_frame[of env s] by (simp add: capture_fails(1))
  have b: "isRunning s4 = isRunning s3 \<and> intervalId s4 = intervalId s3
      \<and> intervals s4 = intervals s3 \<and> (\<exists>ls. console s4 = console s3 @ ls)"
    using captureScreenshot_frame[of env tab s3] by (simp add: capture_fails(7))
  show ?thesis
    using a b capture_fails(3-6) by (auto simp: capture_fails(8))
next
  case (save_fails tab s1 s3 d s4 e s5)
  have a: "isRunning s1 = isRunning s \<and> intervalId s1 = intervalId s
      \<and> intervals s1 = intervals s \<and> (\<exists>ls. console s1 = console s @ ls)"
    using createOrUpdateTab_frame[of env s] by (simp add: save_fails(1))
  have b: "isRunning s4 = isRunning s3 \<and> intervalId s4 = intervalId s3
      \<and> intervals s4 = intervals s3 \<and> (\<exists>ls. console s4 = console s3 @ ls)"
    using captureScreenshot_frame[of env tab s3] by (simp add: save_fails(7))
  have c: "isRunning s5 = isRunning s4 \<and> intervalId s5 = intervalId s4
      \<and> intervals s5 = intervals s4 \<and> (\<exists>ls. console s5 = console s4 @ ls)"
    using saveScreenshot_frame[of env d u s4] by (simp add: save_fails(8))
  show ?thesis
    using a b c save_fails(3-6) by (auto simp: save_fails(9))
next
  case (completes tab s1 s3 d s4 s5 s6)
  have a: "isRunning s1 = isRunning s \<and> intervalId s1 = intervalId s
      \<and> intervals s1 = intervals s \<and> (\<exists>ls. console s1 = console s @ ls)"
    using createOrUpdateTab_frame[of env s] by (simp add: completes(1))
  have b: "isRunning s4 = isRunning s3 \<and> intervalId s4 = intervalId s3
      \<and> intervals s4 = intervals s3 \<and> (\<exists>ls. console s4 = console s3 @ ls)"
    using captureScreenshot_frame[of env tab s3] by (simp add: completes(7))
  have c: "isRunning s5 = isRunning s4 \<and> intervalId s5 = intervalId s4
      \<and> intervals s5 = intervals s4 \<and> (\<exists>ls. console s5 = console s4 @ ls)"
    using saveScreenshot_frame[of env d u s4] by (simp add: completes(8))
  have e: "isRunning s6 = isRunning s5 \<and> intervalId s6 = intervalId s5
      \<and> intervals s6 = intervals s5 \<and> (\<exists>ls. console s6 = console s5 @ ls)"
    using updateStats_frame[of env s5] by (simp add: completes(9))
  show ?thesis
    using a b c e completes(3-6) by (auto simp: completes(10))
qed

lemma takeScreenshot_try_completed_log:
  assumes "steps_to_save_succeed env u"
  shows "last (console (snd (takeScreenshot_try env u s)))
         = Log ''Screenshot process completed successfully''"
proof (cases env u s rule: takeScreenshot_try_cases)
  case (completes tab s1 s3 d s4 s5 s6)
  then show ?thesis by simp
qed (use assms takeScreenshot_try_normal_iff[of env u s] in simp_all)

text \<open>
  What a cycle whose steps succeed leaves behind: the tab that was obtained is the
  current tab, the two timeouts of the load wait and of the capture have each taken a
  handle of the runtime, the capture is logged, and the file is among the downloads
  under the filename of \<open>saveScreenshot\<close>.
\<close>

lemma takeScreenshot_try_effects:
  assumes "steps_to_save_succeed env u"
  shows "\<exists>tab hostname.
           fst (createOrUpdateTab env s) = Normal tab
         \<and> currentTabId (snd (takeScreenshot_try env u s)) = Some tab
         \<and> last_handle (snd (takeScreenshot_try env u s)) = last_handle s + 2
         \<and> capture_logged (console (snd (takeScreenshot_try env u s)))
         \<and> URL_hostname env (url_string u) = Inr hostname
         \<and> downloads (snd (takeScreenshot_try env u s))
           = downloads s @ [filename_of hostname (save_time env)]"
proof (cases env u s rule: takeScreenshot_try_cases)
  case (completes tab s1 s3 d s4 s5 s6)
  have t1: "fst (createOrUpdateTab env s) = Normal tab"
    by (simp add: completes(1))
  have d1: "downloads s1 = downloads s" and h1: "last_handle s1 = last_handle s"
    using createOrUpdateTab_frame2(1,2)[of env s] by (simp_all add: completes(1))
  have d4: "downloads s4 = downloads s3" and c4: "currentTabId s4 = currentTabId s3"
    and h4: "last_handle s4 = Suc (last_handle s3)"
    using captureScreenshot_frame2(1,2)[of env tab s3]
      captureScreenshot_frame2(3)[of env tab s3 d]
    by (simp_all add: completes(7))
  have c5: "currentTabId s5 = currentTabId s4" and h5: "last_handle s5 = last_handle s4"
    using saveScreenshot_frame2(1,2)[of env d u s4] by (simp_all add: completes(8))
  obtain hostname where hn: "URL_hostname env (url_string u) = Inr hostname"
    and d5: "downloads s5 = downloads s4 @ [filename_of hostname (save_time env)]"
    using saveScreenshot_frame2(3)[of env d u s4] by (auto simp: completes(8))
  have d6: "downloads s6 = downloads s5" and c6: "currentTabId s6 = currentTabId s5"
    and h6: "last_handle s6 = last_handle s5"
    using updateStats_frame2[of env s5] by (simp_all add: completes(9))
  have cl: "capture_logged (console (snd (takeScreenshot_try env u s)))"
    using takeScreenshot_try_after_tab[OF completes(1)] by blast
  have "currentTabId (snd (takeScreenshot_try env u s)) = Some tab"
    by (simp add: completes(10) c6 c5 c4 completes(11))
  moreover have "last_handle (snd (takeScreenshot_try env u s)) = last_handle s + 2"
    by (simp add: completes(10) h6 h5 h4 completes(13) h1)
  moreover have "downloads (snd (takeScreenshot_try env u s))
           = downloads s @ [filename_of hostname (save_time env)]"
    by (simp add: completes(10) d6 d5 d4 completes(12) d1)
  ultimately show ?thesis using t1 cl hn by blast
qed (use assms takeScreenshot_try_normal_iff[of env u s] in simp_all)

section \<open>takeScreenshot, the message listener and the schedule\<close>

lemma takeScreenshot_resume_returns: "fst (takeScreenshot_resume env u s) = Normal ()"
  using takeScreenshot_try_settles[of env u s]
  by (cases "takeScreenshot_try env u s"; cases "fst (takeScreenshot_try env u s)")
     (simp_all add: takeScreenshot_resume_def)

lemma takeScreenshot_resume_state:
  "snd (takeScreenshot_resume env u s)
   = (case fst (takeScreenshot_try env u s) of
        Throw e \<Rightarrow> console_log (LogError ''Error during screenshot process:'' e)
                     (snd (takeScreenshot_try env u s))
      | _ \<Rightarrow> snd (takeScreenshot_try env u s))"
  by (cases "takeScreenshot_try env u s"; cases "fst (takeScreenshot_try env u s)")
     (simp_all add: takeScreenshot_resume_def)

lemma takeScreenshot_resume_store:
  "store (snd (takeScreenshot_resume env u s))
   = (if steps_to_save_succeed env u \<and> stats_succeed env
      then (store s)\<lparr>st_totalScreenshots := Some (stored_total (store s) + 1),
                     st_lastRun := Some (stats_time env)\<rparr>
      else store s)"
  using takeScreenshot_try_store[of env u s]
  by (simp add: takeScreenshot_resume_state split: completion.splits)

lemma takeScreenshot_resume_frame:
  "isRunning (snd (takeScreenshot_resume env u s)) = isRunning s
   \<and> intervalId (snd (takeScreenshot_resume env u s)) = intervalId s
   \<and> intervals (snd (takeScreenshot_resume env u s)) = intervals s
   \<and> (\<exists>ls. console (snd (takeScreenshot_resume env u s)) = console s @ ls)"
  using takeScreenshot_try_frame[of env u s]
  by (auto simp: takeScreenshot_resume_state split: completion.splits)

lemma takeScreenshot_resume_last_log:
  "last (console (snd (takeScreenshot_resume env u s)))
   = (if steps_to_save_succeed env u
      then Log ''Screenshot process completed successfully''
      else LogError ''Error during screenshot process:''
             (case fst (takeScreenshot_try env u s) of Throw e \<Rightarrow> e))"
proof (cases "steps_to_save_succeed env u")
  case True
  then have "fst (takeScreenshot_try env u s) = Normal ()"
    using takeScreenshot_try_normal_iff by blast
  then show ?thesis
    using takeScreenshot_try_completed_log[OF True, of s] True
    by (simp add: takeScreenshot_resume_state)
next
  case False
  then obtain e where "fst (takeScreenshot_try env u s) = Throw e"
    using takeScreenshot_try_throws by blast
  then show ?thesis
    using False by (simp add: takeScreenshot_resume_state)
qed

lemma takeScreenshot_begin_eq:
  "takeScreenshot_begin env s
   = (getRandomUrl (random env),
      console_log (Log (''Selected URL: ''
          @ url_string (getRandomUrl (random env))))
        (console_log (Log ''Starting screenshot process...'') s))"
  by (simp add: takeScreenshot_begin_def Let_def)

lemma takeScreenshot_returns: "fst (takeScreenshot env s) = Normal ()"
  by (simp add: takeScreenshot_def takeScreenshot_begin_eq takeScreenshot_resume_returns)

lemma takeScreenshot_store:
  "store (snd (takeScreenshot env s))
   = (if steps_to_save_succeed env (getRandomUrl (random env)) \<and> stats_succeed env
      then (store s)\<lparr>st_totalScreenshots := Some (stored_total (store s) + 1),
                     st_lastRun := Some (stats_time env)\<rparr>
      else store s)"
  by (simp add: takeScreenshot_def takeScreenshot_begin_eq takeScreenshot_resume_store)

lemma takeScreenshot_frame:
  "isRunning (snd (takeScreenshot env s)) = isRunning s
   \<and> intervalId (snd (takeScreenshot env s)) = intervalId s
   \<and> intervals (snd (takeScreenshot env s)) = intervals s"
  using takeScreenshot_resume_frame
  by (simp add: takeScreenshot_def takeScreenshot_begin_eq)

lemma takeScreenshot_last_log:
  "steps_to_save_succeed env (getRandomUrl (random env)) \<Longrightarrow>
   last (console (snd (takeScreenshot env s))) = Log ''Screenshot process completed successfully''"
  "\<not> steps_to_save_succeed env (getRandomUrl (random env)) \<Longrightarrow>
   \<exists>e. last (console (snd (takeScreenshot env s)))
        = LogError ''Error during screenshot process:'' e"
  by (simp_all add: takeScreenshot_def takeScreenshot_begin_eq takeScreenshot_resume_last_log)

lemma takeScreenshotNow_answer:
  "onMessage TakeScreenshotNow ev s = (Some Success, snd (takeScreenshot (for_cycle ev) s))"
  using takeScreenshot_returns[of "for_cycle ev" s]
  by (cases "takeScreenshot (for_cycle ev) s") simp

lemma stored_total_bumped:
  "stored_total (st\<lparr>st_totalScreenshots := Some (stored_total st + 1), st_lastRun := x\<rparr>)
   = stored_total st + 1"
  by (simp add: stored_total_def)

section \<open>Failures of the save and of the statistics\<close>

lemma getRandomUrl_half: "getRandomUrl (1 / 2) = Some ''https://www.google.com''"
  by (simp add: getRandomUrl_def randomIndex_def TARGET_URLS_def)

lemma filename_google:
  "saveScreenshot_filename example_URL_hostname ''https://www.google.com''
     ''2024-01-15T10:30:00.000Z''
   = Inr ''screenshot_google.com_2024-01-15T10-30-00.png''"
  by (simp add: saveScreenshot_filename_def filename_of_def example_URL_hostname_google
      urlDomain_def timestamp_of_example)

lemma env_ok_hostname:
  "URL_hostname env_ok (url_string (getRandomUrl (random env_ok))) = Inr ''www.google.com''"
  by (simp add: env_ok_def getRandomUrl_half url_string_def example_URL_hostname_google)

lemma env_ok_steps: "steps_to_save_succeed env_ok (getRandomUrl (random env_ok))"
  using env_ok_hostname
  by (simp add: steps_to_save_succeed_def createOrUpdateTab_try_def) (simp add: env_ok_def)

lemma env_ok_stats: "stats_succeed env_ok"
  by (simp add: stats_succeed_def env_ok_def)

lemma steps_to_save_succeed_storage_set:
  "steps_to_save_succeed (env\<lparr>storage_set := x\<rparr>) u = steps_to_save_succeed env u"
  by (simp add: steps_to_save_succeed_def createOrUpdateTab_try_def
      split: sum.splits option.splits)

lemma env_stats_fails_steps:
  "steps_to_save_succeed env_stats_fails (getRandomUrl (random env_stats_fails))"
  "\<not> stats_succeed env_stats_fails"
  using env_ok_steps
  by (simp_all add: env_stats_fails_def steps_to_save_succeed_storage_set stats_succeed_def)

lemma env_save_fails_steps:
  "\<not> steps_to_save_succeed env_save_fails (getRandomUrl (random env_save_fails))"
  by (simp add: steps_to_save_succeed_def env_save_fails_def)

text \<open>
  Claim C5, at a cycle whose download is refused. \<open>saveScreenshot\<close> throws the error
  again, the \<^verbatim>\<open>try\<close> block of \<open>takeScreenshot\<close> is left before \<open>updateStats\<close> and the
  storage is as it was: so far the claim holds. But the \<^verbatim>\<open>catch\<close> of \<open>takeScreenshot\<close>
  keeps the error, the promise of \<open>takeScreenshot\<close> is fulfilled, and the
  \<^verbatim>\<open>takeScreenshotNow\<close> command answers success, where the claim, and the \<^verbatim>\<open>catch\<close>
  branch of the message listener, say failure.
\<close>

theorem takeScreenshotNow_save_failure:
  "fst (saveScreenshot env_save_fails ''data:image/png;base64,iVBORw0KGgo=''
          (getRandomUrl (random env_save_fails)) initial_state)
     = Throw (Error ''Download canceled by the user'')
   \<and> (\<exists>e. fst (takeScreenshot_try env_save_fails (getRandomUrl (random env_save_fails))
               initial_state) = Throw e)
   \<and> fst (takeScreenshot env_save_fails initial_state) = Normal ()
   \<and> fst (onMessage TakeScreenshotNow event_save_fails initial_state) = Some Success
   \<and> store (snd (onMessage TakeScreenshotNow event_save_fails initial_state))
     = store initial_state"
proof -
  have r: "random env_save_fails = 1 / 2"
    by (simp add: env_save_fails_def env_ok_def)
  have a: "fst (saveScreenshot env_save_fails ''data:image/png;base64,iVBORw0KGgo=''
          (getRandomUrl (random env_save_fails)) initial_state)
     = Throw (Error ''Download canceled by the user'')"
    unfolding saveScreenshot_result r getRandomUrl_half
    by (simp add: env_save_fails_def env_ok_def url_string_def example_URL_hostname_google)
  have b: "\<exists>e. fst (takeScreenshot_try env_save_fails (getRandomUrl (random env_save_fails))
               initial_state) = Throw e"
    using env_save_fails_steps by (rule takeScreenshot_try_throws)
  have c: "fst (takeScreenshot env_save_fails initial_state) = Normal ()"
    by (rule takeScreenshot_returns)
  have f: "for_cycle event_save_fails = env_save_fails"
    by (simp add: event_save_fails_def)
  have d: "fst (onMessage TakeScreenshotNow event_save_fails initial_state) = Some Success"
    unfolding takeScreenshotNow_answer by simp
  have e: "store (snd (onMessage TakeScreenshotNow event_save_fails initial_state))
     = store initial_state"
    unfolding takeScreenshotNow_answer f using env_save_fails_steps
    by (simp add: takeScreenshot_store)
  show ?thesis using a b c d e by blast
qed

text \<open>
  Claim C6. \<open>updateStats\<close> never throws. When one of its storage calls is rejected it
  leaves the storage as it was and logs the error; the cycle whose earlier steps
  succeeded still returns normally and ends with the log of its success, and a
  \<^verbatim>\<open>takeScreenshotNow\<close> command still answers success.
\<close>

theorem updateStats_failure_absorbed:
  "fst (updateStats env s) = Normal ()
   \<and> (\<not> stats_succeed env \<longrightarrow>
        store (snd (updateStats env s)) = store s
        \<and> (\<exists>e. console (snd (updateStats env s))
                = console s @ [LogError ''Error updating stats:'' e]))
   \<and> (\<not> stats_succeed env \<and> steps_to_save_succeed env u \<longrightarrow>
        fst (takeScreenshot_try env u s) = Normal ()
        \<and> last (console (snd (takeScreenshot_try env u s)))
          = Log ''Screenshot process completed successfully'')
   \<and> (\<not> stats_succeed (for_cycle ev)
       \<and> steps_to_save_succeed (for_cycle ev) (getRandomUrl (random (for_cycle ev))) \<longrightarrow>
        fst (onMessage TakeScreenshotNow ev s) = Some Success
        \<and> last (console (snd (onMessage TakeScreenshotNow ev s)))
          = Log ''Screenshot process completed successfully'')"
proof -
  have a: "fst (updateStats env s) = Normal ()"
    by (rule updateStats_returns)
  have b: "\<not> stats_succeed env \<longrightarrow>
        store (snd (updateStats env s)) = store s
        \<and> (\<exists>e. console (snd (updateStats env s))
                = console s @ [LogError ''Error updating stats:'' e])"
    using updateStats_failure_logged[of env s] by (simp add: updateStats_store)
  have c: "steps_to_save_succeed env u \<longrightarrow>
        fst (takeScreenshot_try env u s) = Normal ()
        \<and> last (console (snd (takeScreenshot_try env u s)))
          = Log ''Screenshot process completed successfully''"
    using takeScreenshot_try_normal_iff[of env u s] takeScreenshot_try_completed_log[of env u s]
    by blast
  have d: "steps_to_save_succeed (for_cycle ev) (getRandomUrl (random (for_cycle ev))) \<longrightarrow>
        fst (onMessage TakeScreenshotNow ev s) = Some Success
        \<and> last (console (snd (onMessage TakeScreenshotNow ev s)))
          = Log ''Screenshot process completed successfully''"
    unfolding takeScreenshotNow_answer by (simp add: takeScreenshot_last_log)
  show ?thesis using a b c d by blast
qed

theorem updateStats_failure_absorbed_witness:
  "\<not> stats_succeed env_stats_fails
   \<and> steps_to_save_succeed env_stats_fails (getRandomUrl (random env_stats_fails))
   \<and> store (snd (updateStats env_stats_fails initial_state)) = store initial_state
   \<and> fst (takeScreenshot_try env_stats_fails (getRandomUrl (random env_stats_fails))
            initial_state) = Normal ()
   \<and> fst (onMessage TakeScreenshotNow event_stats_fails initial_state) = Some Success"
proof -
  have f: "for_cycle event_stats_fails = env_stats_fails"
    by (simp add: event_stats_fails_def)
  note h = env_stats_fails_steps
  from updateStats_failure_absorbed
    [of env_stats_fails initial_state "getRandomUrl (random env_stats_fails)" event_stats_fails]
  have "store (snd (updateStats env_stats_fails initial_state)) = store initial_state
   \<and> fst (takeScreenshot_try env_stats_fails (getRandomUrl (random env_stats_fails))
            initial_state) = Normal ()
   \<and> fst (onMessage TakeScreenshotNow event_stats_fails initial_state) = Some Success"
    using h unfolding f by blast
  then show ?thesis using h by blast
qed

section \<open>Starting and stopping\<close>

lemma start_running:
  "isRunning s \<Longrightarrow>
   startAutomatedScreenshots senv s = console_log (Log ''Screenshot process already running'') s"
  by (simp add: startAutomatedScreenshots_def startAutomatedScreenshots_sync_def)

text \<open>The state in which the function returns when it starts the process.\<close>

lemma start_sync_stopped:
  assumes "\<not> isRunning s"
  shows "fst (startAutomatedScreenshots_sync senv s)
         = Some (getRandomUrl (random (first_cycle senv)))"
    and "isRunning (snd (startAutomatedScreenshots_sync senv s))"
    and "intervalId (snd (startAutomatedScreenshots_sync senv s)) = Some (Suc (last_handle s))"
    and "intervals (snd (startAutomatedScreenshots_sync senv s))
         = intervals s @ [(Suc (last_handle s), SCREENSHOT_INTERVAL)]"
    and "store (snd (startAutomatedScreenshots_sync senv s))
         = (case start_storage_set senv of
              Some e \<Rightarrow> store s
            | None \<Rightarrow> \<lparr>st_isRunning = Some True, st_lastRun = Some (start_time senv),
                       st_totalScreenshots = Some 0\<rparr>)"
    and "console (snd (startAutomatedScreenshots_sync senv s))
         = console s @ [Log ''Starting automated screenshot process'',
                        Log ''Starting screenshot process...'',
                        Log (''Selected URL: ''
                             @ url_string (getRandomUrl (random (first_cycle senv))))]"
  using assms
  by (simp_all add: startAutomatedScreenshots_sync_def takeScreenshot_begin_eq Let_def
      split: option.splits)

lemma start_stopped_eq:
  assumes "\<not> isRunning s"
  shows "startAutomatedScreenshots senv s
         = snd (takeScreenshot_resume (first_cycle senv)
                  (getRandomUrl (random (first_cycle senv)))
                  (snd (startAutomatedScreenshots_sync senv s)))"
  using start_sync_stopped(1)[OF assms, of senv]
  by (cases "startAutomatedScreenshots_sync senv s") (simp add: startAutomatedScreenshots_def)

lemma start_stopped:
  assumes "\<not> isRunning s"
  shows "isRunning (startAutomatedScreenshots senv s)"
    and "intervalId (startAutomatedScreenshots senv s) = Some (Suc (last_handle s))"
    and "intervals (startAutomatedScreenshots senv s)
         = intervals s @ [(Suc (last_handle s), SCREENSHOT_INTERVAL)]"
    and "\<exists>ls. console (startAutomatedScreenshots senv s)
         = console s @ [Log ''Starting automated screenshot process'',
                        Log ''Starting screenshot process...''] @ ls"
proof -
  let ?u = "getRandomUrl (random (first_cycle senv))"
  let ?s4 = "snd (startAutomatedScreenshots_sync senv s)"
  note f = takeScreenshot_resume_frame[of "first_cycle senv" ?u ?s4]
  show "isRunning (startAutomatedScreenshots senv s)"
    using f start_sync_stopped(2)[OF assms, of senv]
    by (simp add: start_stopped_eq[OF assms])
  show "intervalId (startAutomatedScreenshots senv s) = Some (Suc (last_handle s))"
    using f start_sync_stopped(3)[OF assms, of senv]
    by (simp add: start_stopped_eq[OF assms])
  show "intervals (startAutomatedScreenshots senv s)
         = intervals s @ [(Suc (last_handle s), SCREENSHOT_INTERVAL)]"
    using f start_sync_stopped(4)[OF assms, of senv]
    by (simp add: start_stopped_eq[OF assms])
  from f obtain ls where
    "console (startAutomatedScreenshots senv s) = console ?s4 @ ls"
    by (auto simp: start_stopped_eq[OF assms])
  then show "\<exists>ls. console (startAutomatedScreenshots senv s)
         = console s @ [Log ''Starting automated screenshot process'',
                        Log ''Starting screenshot process...''] @ ls"
    by (simp add: start_sync_stopped(6)[OF assms])
qed

lemma start_stopped_store:
  assumes "\<not> isRunning s" and "start_storage_set senv = None"
  shows "store (startAutomatedScreenshots senv s)
         = (if steps_to_save_succeed (first_cycle senv) (getRandomUrl (random (first_cycle senv)))
               \<and> stats_succeed (first_cycle senv)
            then \<lparr>st_isRunning = Some True, st_lastRun = Some (stats_time (first_cycle senv)),
                  st_totalScreenshots = Some 1\<rparr>
            else \<lparr>st_isRunning = Some True, st_lastRun = Some (start_time senv),
                  st_totalScreenshots = Some 0\<rparr>)"
  using start_sync_stopped(5)[OF assms(1), of senv] assms(2)
  by (simp add: start_stopped_eq[OF assms(1)] takeScreenshot_resume_store stored_total_def)

lemma start_always_running: "isRunning (startAutomatedScreenshots senv s)"
  by (cases "isRunning s") (simp_all add: start_running start_stopped(1))

lemma stop_stopped: "\<not> isRunning s \<Longrightarrow> stopAutomatedScreenshots r s = s"
  by (simp add: stopAutomatedScreenshots_def)

lemma stop_fields:
  "\<not> isRunning (stopAutomatedScreenshots r s)"
  "stored_total (store (stopAutomatedScreenshots r s)) = stored_total (store s)"
  by (simp_all add: stopAutomatedScreenshots_def Let_def stored_total_def
      split: option.splits)

lemma stop_idempotent:
  "stopAutomatedScreenshots r' (stopAutomatedScreenshots r s) = stopAutomatedScreenshots r s"
  using stop_fields(1)[of r s] by (rule stop_stopped)

lemma stop_clears_interval:
  "isRunning s \<Longrightarrow> intervalId s = Some (Suc h) \<Longrightarrow>
   intervals (stopAutomatedScreenshots r s) = filter (\<lambda>(j, p). j \<noteq> Suc h) (intervals s)
   \<and> intervalId (stopAutomatedScreenshots r s) = None"
  by (simp add: stopAutomatedScreenshots_def Let_def split: option.splits)

lemma start_sync_stopped_more:
  assumes "\<not> isRunning s"
  shows "downloads (snd (startAutomatedScreenshots_sync senv s)) = downloads s"
    and "last_handle (snd (startAutomatedScreenshots_sync senv s)) = Suc (last_handle s)"
    and "currentTabId (snd (startAutomatedScreenshots_sync senv s)) = currentTabId s"
  using assms
  by (simp_all add: startAutomatedScreenshots_sync_def takeScreenshot_begin_eq Let_def
      split: option.splits)

text \<open>The cycle that a start from the stopped state runs, by what it leaves behind.\<close>

lemma start_stopped_effects:
  assumes "\<not> isRunning s"
    and "steps_to_save_succeed (first_cycle senv) (getRandomUrl (random (first_cycle senv)))"
  shows "\<exists>tab hostname.
           fst (createOrUpdateTab (first_cycle senv) s) = Normal tab
         \<and> currentTabId (startAutomatedScreenshots senv s) = Some tab
         \<and> last_handle (startAutomatedScreenshots senv s) = last_handle s + 3
         \<and> capture_logged (console (startAutomatedScreenshots senv s))
         \<and> URL_hostname (first_cycle senv)
              (url_string (getRandomUrl (random (first_cycle senv)))) = Inr hostname
         \<and> downloads (startAutomatedScreenshots senv s)
           = downloads s @ [filename_of hostname (save_time (first_cycle senv))]
         \<and> last (console (startAutomatedScreenshots senv s))
           = Log ''Screenshot process completed successfully''"
proof -
  let ?fc = "first_cycle senv"
  let ?u = "getRandomUrl (random ?fc)"
  let ?s4 = "snd (startAutomatedScreenshots_sync senv s)"
  have n: "fst (takeScreenshot_try ?fc ?u ?s4) = Normal ()"
    using assms(2) takeScreenshot_try_normal_iff by blast
  have eq: "startAutomatedScreenshots senv s = snd (takeScreenshot_try ?fc ?u ?s4)"
    by (simp add: start_stopped_eq[OF assms(1)] takeScreenshot_resume_state n)
  obtain tab hostname where
    t: "fst (createOrUpdateTab ?fc ?s4) = Normal tab"
    and c: "currentTabId (snd (takeScreenshot_try ?fc ?u ?s4)) = Some tab"
    and h: "last_handle (snd (takeScreenshot_try ?fc ?u ?s4)) = last_handle ?s4 + 2"
    and l: "capture_logged (console (snd (takeScreenshot_try ?fc ?u ?s4)))"
    and p: "URL_hostname ?fc (url_string ?u) = Inr hostname"
    and d: "downloads (snd (takeScreenshot_try ?fc ?u ?s4))
            = downloads ?s4 @ [filename_of hostname (save_time ?fc)]"
    using takeScreenshot_try_effects[OF assms(2), of ?s4] by blast
  have t': "fst (createOrUpdateTab ?fc s) = Normal tab"
    using t by (simp add: createOrUpdateTab_result)
  have g: "last (console (snd (takeScreenshot_try ?fc ?u ?s4)))
           = Log ''Screenshot process completed successfully''"
    using assms(2) by (rule takeScreenshot_try_completed_log)
  show ?thesis
    using t' c h l p d g start_sync_stopped_more[OF assms(1), of senv]
    unfolding eq by auto
qed

lemma start_stopped_failure:
  assumes "\<not> isRunning s"
    and "\<not> steps_to_save_succeed (first_cycle senv) (getRandomUrl (random (first_cycle senv)))"
  shows "\<exists>e. last (console (startAutomatedScreenshots senv s))
              = LogError ''Error during screenshot process:'' e"
  using assms(2)
  by (simp add: start_stopped_eq[OF assms(1)] takeScreenshot_resume_last_log)

text \<open>
  Claim C8. A start while running only logs that the process is already running: no
  interval is created, and the handle and the storage stay as they are. A start while
  stopped sets \<open>isRunning\<close>, adds one interval of 60000 ms whose ticks run
  \<open>takeScreenshot\<close>, and runs one cycle at once, from its first log to its end: when the
  steps of that cycle succeed, the tab obtained is the current tab, the timeouts of the
  load wait and of the capture have been set, the capture is logged, the file is offered
  for download under its filename and the cycle ends with the log of its success; when a
  step fails, it ends with the log of the error; and with the storage written at the
  start, the count afterwards is 1 when the cycle and its statistics succeed and 0 when
  not. A second start right after a start adds no interval, so two starts from the initial
  state leave exactly one. A stop while not running changes nothing, and the message
  listener answers success to it, as it does to every start and stop; a stop after a stop
  changes nothing either.
\<close>

theorem start_stop_idempotent:
  "(isRunning s \<longrightarrow>
      startAutomatedScreenshots senv s
        = console_log (Log ''Screenshot process already running'') s
      \<and> intervals (startAutomatedScreenshots senv s) = intervals s
      \<and> intervalId (startAutomatedScreenshots senv s) = intervalId s
      \<and> store (startAutomatedScreenshots senv s) = store s)
   \<and> (\<not> isRunning s \<longrightarrow>
      isRunning (startAutomatedScreenshots senv s)
      \<and> intervalId (startAutomatedScreenshots senv s) = Some (Suc (last_handle s))
      \<and> intervals (startAutomatedScreenshots senv s)
        = intervals s @ [(Suc (last_handle s), SCREENSHOT_INTERVAL)]
      \<and> SCREENSHOT_INTERVAL = 60000
      \<and> (\<exists>ls. console (startAutomatedScreenshots senv s)
            = console s @ [Log ''Starting automated screenshot process'',
                           Log ''Starting screenshot process...''] @ ls)
      \<and> step (startAutomatedScreenshots senv s) (IntervalTick (Suc (last_handle s)), ev)
        = snd (takeScreenshot (for_cycle ev) (startAutomatedScreenshots senv s))
      \<and> startAutomatedScreenshots senv s
        = snd (takeScreenshot_resume (first_cycle senv)
                 (getRandomUrl (random (first_cycle senv)))
                 (snd (startAutomatedScreenshots_sync senv s)))
      \<and> (steps_to_save_succeed (first_cycle senv) (getRandomUrl (random (first_cycle senv)))
          \<longrightarrow>
          (\<exists>tab hostname.
              fst (createOrUpdateTab (first_cycle senv) s) = Normal tab
            \<and> currentTabId (startAutomatedScreenshots senv s) = Some tab
            \<and> last_handle (startAutomatedScreenshots senv s) = last_handle s + 3
            \<and> capture_logged (console (startAutomatedScreenshots senv s))
            \<and> URL_hostname (first_cycle senv)
                 (url_string (getRandomUrl (random (first_cycle senv)))) = Inr hostname
            \<and> downloads (startAutomatedScreenshots senv s)
              = downloads s @ [filename_of hostname (save_time (first_cycle senv))]
            \<and> last (console (startAutomatedScreenshots senv s))
              = Log ''Screenshot process completed successfully''))
      \<and> (\<not> steps_to_save_succeed (first_cycle senv)
              (getRandomUrl (random (first_cycle senv))) \<longrightarrow>
          (\<exists>e. last (console (startAutomatedScreenshots senv s))
                = LogError ''Error during screenshot process:'' e))
      \<and> (start_storage_set senv = None \<longrightarrow>
          stored_total (store (startAutomatedScreenshots senv s))
          = (if steps_to_save_succeed (first_cycle senv)
                  (getRandomUrl (random (first_cycle senv)))
                \<and> stats_succeed (first_cycle senv)
             then 1 else 0)))
   \<and> intervals (startAutomatedScreenshots senv' (startAutomatedScreenshots senv s))
     = intervals (startAutomatedScreenshots senv s)
   \<and> intervals (startAutomatedScreenshots senv' (startAutomatedScreenshots senv initial_state))
     = [(1, SCREENSHOT_INTERVAL)]
   \<and> (\<not> isRunning s \<longrightarrow>
      stopAutomatedScreenshots r s = s \<and> onMessage Stop ev s = (Some Success, s))
   \<and> stopAutomatedScreenshots r' (stopAutomatedScreenshots r s) = stopAutomatedScreenshots r s
   \<and> fst (onMessage Start ev s) = Some Success
   \<and> fst (onMessage Stop ev s) = Some Success"
proof -
  have a: "isRunning s \<longrightarrow>
      startAutomatedScreenshots senv s
        = console_log (Log ''Screenshot process already running'') s
      \<and> intervals (startAutomatedScreenshots senv s) = intervals s
      \<and> intervalId (startAutomatedScreenshots senv s) = intervalId s
      \<and> store (startAutomatedScreenshots senv s) = store s"
    by (simp add: start_running)
  have b1: "isRunning (startAutomatedScreenshots senv s)
      \<and> intervalId (startAutomatedScreenshots senv s) = Some (Suc (last_handle s))
      \<and> intervals (startAutomatedScreenshots senv s)
        = intervals s @ [(Suc (last_handle s), SCREENSHOT_INTERVAL)]
      \<and> SCREENSHOT_INTERVAL = 60000
      \<and> (\<exists>ls. console (startAutomatedScreenshots senv s)
            = console s @ [Log ''Starting automated screenshot process'',
                           Log ''Starting screenshot process...''] @ ls)
      \<and> step (startAutomatedScreenshots senv s) (IntervalTick (Suc (last_handle s)), ev)
        = snd (takeScreenshot (for_cycle ev) (startAutomatedScreenshots senv s))"
    if st: "\<not> isRunning s"
    using start_stopped[OF st, of senv] by (simp add: SCREENSHOT_INTERVAL_def)
  have b2: "startAutomatedScreenshots senv s
        = snd (takeScreenshot_resume (first_cycle senv)
                 (getRandomUrl (random (first_cycle senv)))
                 (snd (startAutomatedScreenshots_sync senv s)))"
    if st: "\<not> isRunning s"
    using st by (rule start_stopped_eq)
  have b3: "steps_to_save_succeed (first_cycle senv) (getRandomUrl (random (first_cycle senv)))
          \<longrightarrow>
          (\<exists>tab hostname.
              fst (createOrUpdateTab (first_cycle senv) s) = Normal tab
            \<and> currentTabId (startAutomatedScreenshots senv s) = Some tab
            \<and> last_handle (startAutomatedScreenshots senv s) = last_handle s + 3
            \<and> capture_logged (console (startAutomatedScreenshots senv s))
            \<and> URL_hostname (first_cycle senv)
                 (url_string (getRandomUrl (random (first_cycle senv)))) = Inr hostname
            \<and> downloads (startAutomatedScreenshots senv s)
              = downloads s @ [filename_of hostname (save_time (first_cycle senv))]
            \<and> last (console (startAutomatedScreenshots senv s))
              = Log ''Screenshot process completed successfully'')"
    if st: "\<not> isRunning s"
    using start_stopped_effects[OF st] by blast
  have b4: "\<not> steps_to_save_succeed (first_cycle senv)
              (getRandomUrl (random (first_cycle senv))) \<longrightarrow>
          (\<exists>e. last (console (startAutomatedScreenshots senv s))
                = LogError ''Error during screenshot process:'' e)"
    if st: "\<not> isRunning s"
    using start_stopped_failure[OF st] by blast
  have b5: "start_storage_set senv = None \<longrightarrow>
          stored_total (store (startAutomatedScreenshots senv s))
          = (if steps_to_save_succeed (first_cycle senv)
                  (getRandomUrl (random (first_cycle senv)))
                \<and> stats_succeed (first_cycle senv)
             then 1 else 0)"
    if st: "\<not> isRunning s"
    by (simp add: start_stopped_store[OF st] stored_total_def)
  have c: "intervals (startAutomatedScreenshots senv' (startAutomatedScreenshots senv s))
     = intervals (startAutomatedScreenshots senv s)" for s
    using start_always_running[of senv s] by (simp add: start_running)
  have d: "intervals (startAutomatedScreenshots senv initial_state) = [(1, SCREENSHOT_INTERVAL)]"
    using start_stopped(3)[of initial_state senv] by (simp add: initial_state_def)
  have e: "\<not> isRunning s \<longrightarrow>
      stopAutomatedScreenshots r s = s \<and> onMessage Stop ev s = (Some Success, s)"
    by (simp add: stop_stopped)
  have f: "intervals (startAutomatedScreenshots senv' (startAutomatedScreenshots senv initial_state))
     = [(1, SCREENSHOT_INTERVAL)]"
    using c[of initial_state] d by simp
  have g: "fst (onMessage Start ev s) = Some Success" "fst (onMessage Stop ev s) = Some Success"
    by simp_all
  show ?thesis
    using a b1 b2 b3 b4 b5 c[of s] f e stop_idempotent[of r' r s] g by blast
qed

theorem start_stop_idempotent_witness:
  "\<not> isRunning initial_state
   \<and> isRunning (startAutomatedScreenshots start_ok initial_state)
   \<and> intervals (startAutomatedScreenshots start_ok initial_state) = [(1, 60000)]
   \<and> intervals (startAutomatedScreenshots start_ok
        (startAutomatedScreenshots start_ok initial_state)) = [(1, 60000)]
   \<and> steps_to_save_succeed (first_cycle start_ok) (getRandomUrl (random (first_cycle start_ok)))
   \<and> start_storage_set start_ok = None
   \<and> currentTabId (startAutomatedScreenshots start_ok initial_state) = Some 7
   \<and> last_handle (startAutomatedScreenshots start_ok initial_state) = 3
   \<and> downloads (startAutomatedScreenshots start_ok initial_state)
     = [''screenshot_google.com_2024-01-15T10-30-00.png'']
   \<and> last (console (startAutomatedScreenshots start_ok initial_state))
     = Log ''Screenshot process completed successfully''
   \<and> stored_total (store (startAutomatedScreenshots start_ok initial_state)) = 1
   \<and> onMessage Stop event_ok initial_state = (Some Success, initial_state)"
proof -
  let ?s = "startAutomatedScreenshots start_ok initial_state"
  have n: "\<not> isRunning initial_state"
    and i: "intervals initial_state = []" and l: "last_handle initial_state = 0"
    and dl: "downloads initial_state = []"
    by (simp_all add: initial_state_def)
  have fc: "first_cycle start_ok = env_ok" and o: "start_storage_set start_ok = None"
    by (simp_all add: start_ok_def)
  have ok: "steps_to_save_succeed (first_cycle start_ok)
              (getRandomUrl (random (first_cycle start_ok)))"
    unfolding fc by (rule env_ok_steps)
  have tb: "fst (createOrUpdateTab env_ok initial_state) = Normal 7"
    by (simp add: createOrUpdateTab_result createOrUpdateTab_try_def env_ok_def)
  have fn: "filename_of ''www.google.com'' (save_time env_ok)
            = ''screenshot_google.com_2024-01-15T10-30-00.png''"
    by (simp add: filename_of_def urlDomain_def env_ok_def timestamp_of_example)
  note t = start_stop_idempotent[of initial_state start_ok event_ok start_ok None None]
  from t n have r: "isRunning ?s"
    and v: "intervals ?s
            = intervals initial_state @ [(Suc (last_handle initial_state), SCREENSHOT_INTERVAL)]"
    and k: "SCREENSHOT_INTERVAL = 60000"
    and p: "onMessage Stop event_ok initial_state = (Some Success, initial_state)"
    by blast+
  from v k have v': "intervals ?s = [(1, 60000)]"
    by (simp add: i l)
  from t n ok obtain tab hostname where
    e1: "fst (createOrUpdateTab (first_cycle start_ok) initial_state) = Normal tab"
    and e2: "currentTabId ?s = Some tab"
    and e3: "last_handle ?s = last_handle initial_state + 3"
    and e4: "URL_hostname (first_cycle start_ok)
               (url_string (getRandomUrl (random (first_cycle start_ok)))) = Inr hostname"
    and e5: "downloads ?s
             = downloads initial_state @ [filename_of hostname (save_time (first_cycle start_ok))]"
    and e6: "last (console ?s) = Log ''Screenshot process completed successfully''"
    by blast
  from e1 tb have tab7: "tab = 7" by (simp add: fc)
  from e4 env_ok_hostname have hn: "hostname = ''www.google.com''" by (simp add: fc)
  from t n o have "stored_total (store ?s)
          = (if steps_to_save_succeed (first_cycle start_ok)
                  (getRandomUrl (random (first_cycle start_ok)))
                \<and> stats_succeed (first_cycle start_ok)
             then 1 else 0)"
    by blast
  then have e7: "stored_total (store ?s) = 1"
    using ok env_ok_stats by (simp add: fc)
  note t' = start_stop_idempotent[of ?s start_ok event_ok start_ok None None]
  from t' r have "intervals (startAutomatedScreenshots start_ok ?s) = intervals ?s"
    by blast
  then show ?thesis
    using n r v' ok o e2 e3 e5 e6 e7 p by (simp add: tab7 hn fc fn l dl)
qed

text \<open>
  Claim C10. A start from the stopped state (whose write to the storage is accepted)
  overwrites the storage with \<^verbatim>\<open>isRunning: true\<close>, the time of the start and
  \<^verbatim>\<open>totalScreenshots: 0\<close>, whatever the count was. The count after the start and its
  first cycle is 1 if that cycle succeeded and 0 if not: nothing of the earlier count
  is kept.
\<close>

theorem start_resets_count:
  "\<not> isRunning s \<and> start_storage_set senv = None \<longrightarrow>
     store (snd (startAutomatedScreenshots_sync senv s))
       = \<lparr>st_isRunning = Some True, st_lastRun = Some (start_time senv),
          st_totalScreenshots = Some 0\<rparr>
     \<and> stored_total (store (startAutomatedScreenshots senv s))
       = (if steps_to_save_succeed (first_cycle senv) (getRandomUrl (random (first_cycle senv)))
             \<and> stats_succeed (first_cycle senv)
          then 1 else 0)
     \<and> st_isRunning (store (startAutomatedScreenshots senv s)) = Some True"
proof
  assume h: "\<not> isRunning s \<and> start_storage_set senv = None"
  then have st: "\<not> isRunning s" and ok: "start_storage_set senv = None" by simp_all
  have a: "store (snd (startAutomatedScreenshots_sync senv s))
       = \<lparr>st_isRunning = Some True, st_lastRun = Some (start_time senv),
          st_totalScreenshots = Some 0\<rparr>"
    using start_sync_stopped(5)[OF st, of senv] ok by simp
  show "store (snd (startAutomatedScreenshots_sync senv s))
       = \<lparr>st_isRunning = Some True, st_lastRun = Some (start_time senv),
          st_totalScreenshots = Some 0\<rparr>
     \<and> stored_total (store (startAutomatedScreenshots senv s))
       = (if steps_to_save_succeed (first_cycle senv) (getRandomUrl (random (first_cycle senv)))
             \<and> stats_succeed (first_cycle senv)
          then 1 else 0)
     \<and> st_isRunning (store (startAutomatedScreenshots senv s)) = Some True"
    using a by (simp add: start_stopped_store[OF st ok] stored_total_def)
qed

theorem start_resets_count_witness:
  "\<not> isRunning (initial_state\<lparr>store := \<lparr>st_isRunning = Some False,
        st_lastRun = Some ''2024-01-14T08:00:00.000Z'', st_totalScreenshots = Some 41\<rparr>\<rparr>)
   \<and> start_storage_set start_ok = None
   \<and> stored_total (store (initial_state\<lparr>store := \<lparr>st_isRunning = Some False,
        st_lastRun = Some ''2024-01-14T08:00:00.000Z'', st_totalScreenshots = Some 41\<rparr>\<rparr>)) = 41
   \<and> st_totalScreenshots (store (snd (startAutomatedScreenshots_sync start_ok
        (initial_state\<lparr>store := \<lparr>st_isRunning = Some False,
           st_lastRun = Some ''2024-01-14T08:00:00.000Z'', st_totalScreenshots = Some 41\<rparr>\<rparr>))))
     = Some 0
   \<and> stored_total (store (startAutomatedScreenshots start_ok
        (initial_state\<lparr>store := \<lparr>st_isRunning = Some False,
           st_lastRun = Some ''2024-01-14T08:00:00.000Z'', st_totalScreenshots = Some 41\<rparr>\<rparr>)))
     = 1"
proof -
  let ?s = "initial_state\<lparr>store := \<lparr>st_isRunning = Some False,
        st_lastRun = Some ''2024-01-14T08:00:00.000Z'', st_totalScreenshots = Some 41\<rparr>\<rparr>"
  have n: "\<not> isRunning ?s" by (simp add: initial_state_def)
  have o: "start_storage_set start_ok = None" by (simp add: start_ok_def)
  have c: "stored_total (store ?s) = 41" by (simp add: stored_total_def)
  have f: "first_cycle start_ok = env_ok" by (simp add: start_ok_def)
  from start_resets_count[of ?s start_ok] n o
  have a: "store (snd (startAutomatedScreenshots_sync start_ok ?s))
       = \<lparr>st_isRunning = Some True, st_lastRun = Some (start_time start_ok),
          st_totalScreenshots = Some 0\<rparr>"
    and b: "stored_total (store (startAutomatedScreenshots start_ok ?s))
       = (if steps_to_save_succeed (first_cycle start_ok)
               (getRandomUrl (random (first_cycle start_ok)))
             \<and> stats_succeed (first_cycle start_ok)
          then 1 else 0)"
    by blast+
  from b have b': "stored_total (store (startAutomatedScreenshots start_ok ?s)) = 1"
    unfolding f using env_ok_steps env_ok_stats by simp
  from a have a': "st_totalScreenshots (store (snd (startAutomatedScreenshots_sync start_ok ?s)))
     = Some 0" by simp
  show ?thesis using n o c a' b' by blast
qed

section \<open>The count over the events of a running process\<close>

lemma takeScreenshot_total_mono:
  "stored_total (store s) \<le> stored_total (store (snd (takeScreenshot env s)))"
  by (simp add: takeScreenshot_store stored_total_def)

lemma step_total_mono:
  assumes "isRunning s"
  shows "stored_total (store s) \<le> stored_total (store (step s (e, ev)))"
proof (cases e)
  case OnStartup
  then show ?thesis using assms by (simp add: start_running)
next
  case OnInstalled
  then show ?thesis using assms by (simp add: start_running)
next
  case (Message a)
  show ?thesis
  proof (cases a)
    case TakeScreenshotNow
    show ?thesis
      unfolding Message TakeScreenshotNow step.simps takeScreenshotNow_answer
      by (simp add: takeScreenshot_total_mono)
  qed (use assms Message in \<open>simp_all add: start_running stop_fields split: option.splits\<close>)
next
  case (IntervalTick i)
  then show ?thesis by (simp add: takeScreenshot_total_mono)
next
  case OnSuspend
  then show ?thesis by (simp add: stop_fields)
qed

lemma step_stays_running:
  assumes "isRunning s" and "e \<noteq> Message Stop" and "e \<noteq> OnSuspend"
  shows "isRunning (step s (e, ev))"
proof (cases e)
  case (Message a)
  show ?thesis
  proof (cases a)
    case TakeScreenshotNow
    show ?thesis
      unfolding Message TakeScreenshotNow step.simps takeScreenshotNow_answer
      using assms(1) by (simp add: takeScreenshot_frame)
  qed (use assms Message in \<open>simp_all add: start_always_running split: option.splits\<close>)
next
  case (IntervalTick i)
  then show ?thesis using assms(1) by (simp add: takeScreenshot_frame)
qed (use assms in \<open>simp_all add: start_always_running\<close>)

lemma steps_total_mono:
  assumes "isRunning s"
    and "\<forall>x\<in>set evs. fst x \<noteq> Message Stop \<and> fst x \<noteq> OnSuspend"
  shows "isRunning (steps s evs) \<and> stored_total (store s) \<le> stored_total (store (steps s evs))"
  using assms
proof (induction evs arbitrary: s)
  case Nil
  then show ?case by (simp add: steps_def)
next
  case (Cons x evs)
  obtain e ev where x: "x = (e, ev)" by (cases x)
  have r: "isRunning (step s (e, ev))"
    using Cons.prems x by (intro step_stays_running) simp_all
  have m: "stored_total (store s) \<le> stored_total (store (step s (e, ev)))"
    using Cons.prems(1) by (rule step_total_mono)
  have "isRunning (steps (step s (e, ev)) evs)
        \<and> stored_total (store (step s (e, ev))) \<le> stored_total (store (steps (step s (e, ev)) evs))"
    using Cons.IH[OF r] Cons.prems(2) by simp
  then show ?case using m by (simp add: steps_def x)
qed

text \<open>
  Claim C7, amended. While the process is running, no event makes the stored count
  smaller, and over every sequence of events without a stop the process stays running
  and the count does not decrease. A cycle adds exactly 1 to the count when every step
  and both storage calls of \<open>updateStats\<close> succeed, and nothing otherwise: a cycle in
  which a step up to and including the save fails (no tab, the activation, the capture,
  the fetch or the download) leaves the storage as it was, and so does a cycle whose
  steps succeed but whose read or write of the statistics is rejected.
\<close>

theorem totalScreenshots_monotone:
  "(isRunning s \<longrightarrow> stored_total (store s) \<le> stored_total (store (step s (e, ev))))
   \<and> (isRunning s \<and> (\<forall>x\<in>set evs. fst x \<noteq> Message Stop \<and> fst x \<noteq> OnSuspend) \<longrightarrow>
        isRunning (steps s evs)
        \<and> stored_total (store s) \<le> stored_total (store (steps s evs)))
   \<and> stored_total (store (snd (takeScreenshot env s)))
     = stored_total (store s)
       + (if steps_to_save_succeed env (getRandomUrl (random env)) \<and> stats_succeed env
          then 1 else 0)
   \<and> (steps_to_save_succeed env (getRandomUrl (random env)) \<and> stats_succeed env \<longrightarrow>
        stored_total (store (snd (takeScreenshot env s))) = stored_total (store s) + 1)
   \<and> (\<not> steps_to_save_succeed env (getRandomUrl (random env)) \<longrightarrow>
        store (snd (takeScreenshot env s)) = store s)
   \<and> (\<not> stats_succeed env \<longrightarrow> store (snd (takeScreenshot env s)) = store s)
   \<and> ((isl (createOrUpdateTab_try env) \<and> isl (tabs_create_fallback env))
       \<or> tabs_update_active env \<noteq> None \<or> isl (captureVisibleTab env)
       \<or> fetch_blob env \<noteq> None \<or> downloads_download env \<noteq> None \<longrightarrow>
        store (snd (takeScreenshot env s)) = store s)"
proof -
  have a: "isRunning s \<longrightarrow> stored_total (store s) \<le> stored_total (store (step s (e, ev)))"
    using step_total_mono by blast
  have b: "isRunning s \<and> (\<forall>x\<in>set evs. fst x \<noteq> Message Stop \<and> fst x \<noteq> OnSuspend) \<longrightarrow>
        isRunning (steps s evs)
        \<and> stored_total (store s) \<le> stored_total (store (steps s evs))"
    using steps_total_mono by blast
  have x: "stored_total (store (snd (takeScreenshot env s)))
     = stored_total (store s)
       + (if steps_to_save_succeed env (getRandomUrl (random env)) \<and> stats_succeed env
          then 1 else 0)"
    by (simp add: takeScreenshot_store stored_total_def)
  have c: "steps_to_save_succeed env (getRandomUrl (random env)) \<and> stats_succeed env \<longrightarrow>
        stored_total (store (snd (takeScreenshot env s))) = stored_total (store s) + 1"
    by (simp add: takeScreenshot_store stored_total_def)
  have d: "\<not> steps_to_save_succeed env (getRandomUrl (random env)) \<longrightarrow>
        store (snd (takeScreenshot env s)) = store s"
    by (simp add: takeScreenshot_store)
  have f: "\<not> stats_succeed env \<longrightarrow> store (snd (takeScreenshot env s)) = store s"
    by (simp add: takeScreenshot_store)
  have e: "(isl (createOrUpdateTab_try env) \<and> isl (tabs_create_fallback env))
       \<or> tabs_update_active env \<noteq> None \<or> isl (captureVisibleTab env)
       \<or> fetch_blob env \<noteq> None \<or> downloads_download env \<noteq> None \<longrightarrow>
        \<not> steps_to_save_succeed env (getRandomUrl (random env))"
    by (auto simp: steps_to_save_succeed_def)
  show ?thesis using a b x c d f e by blast
qed

lemma run_s1:
  "isRunning (startAutomatedScreenshots start_ok initial_state)
   \<and> stored_total (store (startAutomatedScreenshots start_ok initial_state)) = 1
   \<and> intervals (startAutomatedScreenshots start_ok initial_state) = [(1, SCREENSHOT_INTERVAL)]"
proof -
  have n: "\<not> isRunning initial_state" and l: "last_handle initial_state = 0"
    and i: "intervals initial_state = []"
    by (simp_all add: initial_state_def)
  have o: "start_storage_set start_ok = None" and f: "first_cycle start_ok = env_ok"
    by (simp_all add: start_ok_def)
  show ?thesis
    using start_stopped(1,3)[OF n, of start_ok] env_ok_steps env_ok_stats
    by (simp add: start_stopped_store[OF n o] f stored_total_def l i)
qed

text \<open>
  Against claim C7 as stated: in the running process with one screenshot counted, a
  cycle whose steps all succeed but whose write of the statistics is rejected returns
  normally, ends with the log of its success and is answered with success by
  \<^verbatim>\<open>takeScreenshotNow\<close>, and the count is still 1.
\<close>

theorem totalScreenshots_counterexample:
  "isRunning (startAutomatedScreenshots start_ok initial_state)
   \<and> stored_total (store (startAutomatedScreenshots start_ok initial_state)) = 1
   \<and> steps_to_save_succeed env_stats_fails (getRandomUrl (random env_stats_fails))
   \<and> fst (takeScreenshot env_stats_fails (startAutomatedScreenshots start_ok initial_state))
     = Normal ()
   \<and> last (console (snd (takeScreenshot env_stats_fails
        (startAutomatedScreenshots start_ok initial_state))))
     = Log ''Screenshot process completed successfully''
   \<and> fst (onMessage TakeScreenshotNow event_stats_fails
        (startAutomatedScreenshots start_ok initial_state)) = Some Success
   \<and> stored_total (store (snd (onMessage TakeScreenshotNow event_stats_fails
        (startAutomatedScreenshots start_ok initial_state)))) = 1
   \<and> stored_total (store (snd (onMessage TakeScreenshotNow event_stats_fails
        (startAutomatedScreenshots start_ok initial_state))))
     \<noteq> stored_total (store (startAutomatedScreenshots start_ok initial_state)) + 1"
proof -
  let ?s = "startAutomatedScreenshots start_ok initial_state"
  have r: "isRunning ?s" and c: "stored_total (store ?s) = 1"
    using run_s1 by simp_all
  note ok = env_stats_fails_steps(1)
  have f: "for_cycle event_stats_fails = env_stats_fails"
    by (simp add: event_stats_fails_def)
  have n: "fst (takeScreenshot env_stats_fails ?s) = Normal ()"
    by (rule takeScreenshot_returns)
  have l: "last (console (snd (takeScreenshot env_stats_fails ?s)))
           = Log ''Screenshot process completed successfully''"
    using ok by (rule takeScreenshot_last_log(1))
  have a: "fst (onMessage TakeScreenshotNow event_stats_fails ?s) = Some Success"
    unfolding takeScreenshotNow_answer by simp
  have u: "stored_total (store (snd (onMessage TakeScreenshotNow event_stats_fails ?s))) = 1"
    unfolding takeScreenshotNow_answer f
    using env_stats_fails_steps(2) c by (simp add: takeScreenshot_store)
  show ?thesis using r c ok n l a u by simp
qed

theorem totalScreenshots_monotone_witness:
  "isRunning (startAutomatedScreenshots start_ok initial_state)
   \<and> stored_total (store (startAutomatedScreenshots start_ok initial_state)) = 1
   \<and> 1 \<le> stored_total (store (steps (startAutomatedScreenshots start_ok initial_state)
            [(IntervalTick 1, event_ok), (Message TakeScreenshotNow, event_save_fails),
             (Message Start, event_ok)]))
   \<and> steps_to_save_succeed env_ok (getRandomUrl (random env_ok)) \<and> stats_succeed env_ok
   \<and> stored_total (store (snd (takeScreenshot env_ok
        (startAutomatedScreenshots start_ok initial_state)))) = 2
   \<and> \<not> steps_to_save_succeed env_save_fails (getRandomUrl (random env_save_fails))
   \<and> downloads_download env_save_fails \<noteq> None
   \<and> stored_total (store (snd (takeScreenshot env_save_fails
        (startAutomatedScreenshots start_ok initial_state)))) = 1
   \<and> \<not> stats_succeed env_stats_fails
   \<and> stored_total (store (snd (takeScreenshot env_stats_fails
        (startAutomatedScreenshots start_ok initial_state)))) = 1"
proof -
  let ?s = "startAutomatedScreenshots start_ok initial_state"
  let ?evs = "[(IntervalTick 1, event_ok), (Message TakeScreenshotNow, event_save_fails),
             (Message Start, event_ok)]"
  have r: "isRunning ?s" and c: "stored_total (store ?s) = 1"
    using run_s1 by simp_all
  have q: "\<forall>x\<in>set ?evs. fst x \<noteq> Message Stop \<and> fst x \<noteq> OnSuspend"
    by simp
  have dl: "downloads_download env_save_fails \<noteq> None"
    by (simp add: env_save_fails_def)
  note t = totalScreenshots_monotone[of ?s "IntervalTick 1" event_ok ?evs env_ok]
  note t' = totalScreenshots_monotone[of ?s "IntervalTick 1" event_ok ?evs env_save_fails]
  note t'' = totalScreenshots_monotone[of ?s "IntervalTick 1" event_ok ?evs env_stats_fails]
  from t r q have m: "stored_total (store ?s) \<le> stored_total (store (steps ?s ?evs))"
    by blast
  from t env_ok_steps env_ok_stats
  have p: "stored_total (store (snd (takeScreenshot env_ok ?s))) = stored_total (store ?s) + 1"
    by blast
  from t' env_save_fails_steps
  have z: "store (snd (takeScreenshot env_save_fails ?s)) = store ?s"
    by blast
  from t'' env_stats_fails_steps(2)
  have y: "store (snd (takeScreenshot env_stats_fails ?s)) = store ?s"
    by blast
  show ?thesis
    using r c m p z y env_ok_steps env_ok_stats env_save_fails_steps env_stats_fails_steps(2) dl
    by simp
qed

end
